theory Spec2Isabelle
  imports Complex_Main "HOL-Library.Sublist" "HOL-Library.AList"
begin

section \<open>The amenity map component (src/App.js)\<close>

text \<open>
  The repository is one React component, \<^verbatim>\<open>App\<close>. It holds three state variables
  (\<^verbatim>\<open>queryBy\<close>, \<^verbatim>\<open>queryResult\<close>, \<^verbatim>\<open>inputFromForm\<close>) and one ref (\<^verbatim>\<open>mapRef\<close>), a Formik form
  with a Yup schema, and two effects that do something: one that recreates the Leaflet map and
  starts the Overpass request, one that redraws the markers. (A third effect has an empty body.)

  The embedding makes the browser explicit. The Leaflet maps that are bound to the container
  \<^verbatim>\<open>div#map\<close>, Leaflet's stamp counter, the log of HTTP requests, the console and the requests in
  flight are fields of one state record, beside the component's own state. Every function of the
  component that can throw returns \<open>error + state\<close>; what throws is Leaflet (a container that
  already holds a map, a map that no longer holds its container, a marker whose icon has no
  URL) or the use of a ref that is \<^verbatim>\<open>null\<close>. An \<^verbatim>\<open>async\<close> function is split at its \<^verbatim>\<open>await\<close>:
  the part that runs at once, and the continuation that runs when the promise settles.

  What React, Formik, Yup and Leaflet do is written out where the component relies on it: the
  state updates of one handler are committed together, an effect runs again when one of its
  dependencies changed by \<^verbatim>\<open>Object.is\<close>, the cleanups of a commit run before
  its effects, and the effects run in the order of their declaration. Stamps stand for the
  identity of Leaflet's objects: only that they are new matters, not their numbers.

  JavaScript numbers are only stored and printed by this program, never computed with, so a
  number is a \<open>real\<close> and the conversion of a number to text inside a template literal is a
  parameter \<open>ns\<close> of every function that builds text.
\<close>

subsection \<open>Data\<close>

type_synonym jsnum = real

text \<open>
  The values object of the form. The two \<^verbatim>\<open>type="number"\<close> fields hold either the empty string
  of an unfilled input (\<open>None\<close>) or a number; the text field and the select hold strings.
\<close>

record form_values =
  name :: string
  latitude :: "jsnum option"
  longitude :: "jsnum option"
  type :: string

text \<open>The error messages of the form, one slot per field (Formik's \<^verbatim>\<open>errors\<close>).\<close>

record form_errors =
  name_error :: "string option"
  latitude_error :: "string option"
  longitude_error :: "string option"
  type_error :: "string option"

text \<open>
  One element of the \<^verbatim>\<open>elements\<close> array of an Overpass answer: a node with its coordinates
  and, when it has any, its tags (a dictionary from tag keys to strings).
\<close>

record element =
  lat :: jsnum
  lon :: jsnum
  tags :: "(string \<rightharpoonup> string) option"

text \<open>The options object given to \<^verbatim>\<open>L.icon\<close>; \<open>iconUrl\<close> is \<open>None\<close> for \<^verbatim>\<open>undefined\<close>.\<close>

record icon =
  iconUrl :: "string option"
  iconSize :: "nat \<times> nat"
  iconAnchor :: "nat \<times> nat"
  popupAnchor :: "int \<times> int"

record marker =
  latlng :: "jsnum \<times> jsnum"
  marker_icon :: icon
  popup :: "string option"

datatype layer = TileLayer string string | Marker marker

text \<open>
  A Leaflet map: its centre, its zoom and its layers, keyed by the stamp each layer got when it
  was added (Leaflet's \<^verbatim>\<open>_layers\<close>), in the order they were added.
\<close>

record lmap =
  center :: "jsnum option \<times> jsnum option"
  zoom :: nat
  layers :: "(nat \<times> layer) list"

datatype http_request = GET string

datatype js_error = NetworkError | SyntaxError

datatype error = TypeError | Error string

text \<open>
  How the request of a \<^verbatim>\<open>fetch\<close> ends: the request or \<^verbatim>\<open>response.json()\<close> rejects, or the
  body parses, with an \<^verbatim>\<open>elements\<close> array or without one.
\<close>

datatype outcome = Rejected js_error | Body "element list option"

text \<open>What an \<^verbatim>\<open>async\<close> call has done when it hands control back to its caller.\<close>

datatype 'a promise = Resolved 'a | Pending

text \<open>
  The component and its browser. \<open>queryResult\<close> is \<open>None\<close> for \<^verbatim>\<open>undefined\<close>; \<open>inputFromForm\<close>
  is \<open>None\<close> for \<^verbatim>\<open>null\<close> and otherwise the values object with the address that is its identity;
  \<open>mapRef\<close> is \<open>None\<close> for \<^verbatim>\<open>null\<close> and otherwise the stamp of a map. \<open>maps\<close> are the maps bound
  to \<^verbatim>\<open>div#map\<close> and not removed. \<open>pending\<close> are the requests in flight, each with the
  \<^verbatim>\<open>queryBy\<close> its continuation holds; \<open>microtasks\<close> are the results of \<^verbatim>\<open>fetchQueryDetail\<close>
  calls that returned without a request and wait to be stored by \<^verbatim>\<open>setQueryResult\<close>.
\<close>

record state =
  queryBy :: string
  queryResult :: "element list option"
  inputFromForm :: "(nat \<times> form_values) option"
  mapRef :: "nat option"
  errors :: form_errors
  maps :: "(nat \<times> lmap) list"
  lastId :: nat
  requests :: "http_request list"
  console :: "(string \<times> js_error) list"
  pending :: "string list"
  microtasks :: "element list option list"

datatype update =
  SetQueryBy string
| SetQueryResult "element list option"
| SetInputFromForm "nat \<times> form_values"

datatype event =
  Submit nat form_values
| Select string
| Settle nat outcome

subsection \<open>Sequencing of steps that can throw\<close>

definition and_then :: "error + 'a \<Rightarrow> ('a \<Rightarrow> error + 'b) \<Rightarrow> error + 'b" where
  "and_then r f = (case r of Inl e \<Rightarrow> Inl e | Inr x \<Rightarrow> f x)"

definition when_do :: "bool \<Rightarrow> (state \<Rightarrow> error + state) \<Rightarrow> state \<Rightarrow> error + state" where
  "when_do b f s = (if b then f s else Inr s)"

subsection \<open>The validation schema\<close>

text \<open>
  \<^verbatim>\<open>Yup.string().required(msg)\<close> refuses a missing value and the empty string;
  \<^verbatim>\<open>Yup.number().required(msg)\<close> refuses a missing value. Formik hands an empty field to the
  schema as a missing value.
\<close>

definition yup_string_required :: "string \<Rightarrow> string \<Rightarrow> string option" where
  "yup_string_required msg v = (if v = [] then Some msg else None)"

definition yup_number_required :: "string \<Rightarrow> jsnum option \<Rightarrow> string option" where
  "yup_number_required msg v = (case v of None \<Rightarrow> Some msg | Some x \<Rightarrow> None)"

definition validationSchema :: "form_values \<Rightarrow> form_errors" where
  "validationSchema v =
     \<lparr>name_error = yup_string_required ''Name is required'' (name v),
      latitude_error = yup_number_required ''Latitude is required'' (latitude v),
      longitude_error = yup_number_required ''Longitude is required'' (longitude v),
      type_error = yup_string_required ''Type is required'' (type v)\<rparr>"

definition no_errors :: form_errors where
  "no_errors = \<lparr>name_error = None, latitude_error = None, longitude_error = None,
     type_error = None\<rparr>"

definition isValid :: "form_errors \<Rightarrow> bool" where
  "isValid e = (e = no_errors)"

subsection \<open>Icons and drop-down options\<close>

definition hospitalIcon :: string where "hospitalIcon = ''./assets/hospital.svg''"
definition schoolIcon :: string where "schoolIcon = ''./assets/school.svg''"
definition restaurantIcon :: string where "restaurantIcon = ''./assets/restaurant.svg''"
definition templeIcon :: string where "templeIcon = ''./assets/temple.svg''"

text \<open>
  The icons by amenity type; a type that is none of the four keys has no icon
  (\<^verbatim>\<open>amenityIcons[queryBy]\<close> is \<^verbatim>\<open>undefined\<close>).
\<close>

definition amenityIcons :: "string \<rightharpoonup> string" where
  "amenityIcons = map_of
     [(''hospital'', hospitalIcon),
      (''school'', schoolIcon),
      (''restaurant'', restaurantIcon),
      (''place_of_worship'', templeIcon)]"

text \<open>The options of both selects: id, label, value.\<close>

definition typeOptions :: "(nat \<times> string \<times> string) list" where
  "typeOptions =
     [(1, ''Restaurant'', ''restaurant''),
      (2, ''Hospital'', ''hospital''),
      (3, ''School'', ''school''),
      (4, ''Temple'', ''place_of_worship'')]"

definition option_values :: "string list" where
  "option_values = map (\<lambda>(i, l, v). v) typeOptions"

subsection \<open>Template literals\<close>

text \<open>A missing string prints as \<^verbatim>\<open>undefined\<close>; the empty field of a number input prints as nothing.\<close>

definition tmpl :: "string option \<Rightarrow> string" where
  "tmpl x = (case x of None \<Rightarrow> ''undefined'' | Some s \<Rightarrow> s)"

definition tmpl_field :: "(jsnum \<Rightarrow> string) \<Rightarrow> jsnum option \<Rightarrow> string" where
  "tmpl_field ns x = (case x of None \<Rightarrow> [] | Some n \<Rightarrow> ns n)"

text \<open>\<^verbatim>\<open>obj?.tags?.name\<close>\<close>

definition tags_name :: "element \<Rightarrow> string option" where
  "tags_name obj = (case tags obj of None \<Rightarrow> None | Some t \<Rightarrow> t ''name'')"

definition popupContent :: "(jsnum \<Rightarrow> string) \<Rightarrow> element \<Rightarrow> string" where
  "popupContent ns obj =
     ''<div><b>Name: '' @ tmpl (tags_name obj) @ ''</b> <br/> <b>latitude: '' @ ns (lat obj)
       @ ''</b> <br/> <b>longitude: '' @ ns (lon obj) @ ''</b></div>''"

definition overpass_url :: "(jsnum \<Rightarrow> string) \<Rightarrow> form_values \<Rightarrow> string \<Rightarrow> string" where
  "overpass_url ns v q =
     ''https://overpass-api.de/api/interpreter?data=[out:json];node(around:5000,''
       @ tmpl_field ns (latitude v) @ '','' @ tmpl_field ns (longitude v)
       @ '')[amenity='' @ q @ ''];out;''"

subsection \<open>Leaflet\<close>

definition L_icon :: "string option \<Rightarrow> icon" where
  "L_icon url = \<lparr>iconUrl = url, iconSize = (32, 32), iconAnchor = (16, 32),
     popupAnchor = (0, - 32)\<rparr>"

definition isMarker :: "layer \<Rightarrow> bool" where
  "isMarker l = (case l of Marker m \<Rightarrow> True | TileLayer u a \<Rightarrow> False)"

definition set_layers :: "nat \<Rightarrow> ((nat \<times> layer) list \<Rightarrow> (nat \<times> layer) list) \<Rightarrow> state \<Rightarrow> state" where
  "set_layers a f s =
     s\<lparr>maps := map (\<lambda>(b, m). if b = a then (b, m\<lparr>layers := f (layers m)\<rparr>) else (b, m)) (maps s)\<rparr>"

text \<open>\<^verbatim>\<open>map.removeLayer(layer)\<close>: the layer with that stamp leaves the map.\<close>

definition removeLayer :: "nat \<Rightarrow> nat \<Rightarrow> state \<Rightarrow> state" where
  "removeLayer a i s = set_layers a (filter (\<lambda>(j, l). j \<noteq> i)) s"

text \<open>\<^verbatim>\<open>map.addLayer(layer)\<close>: the layer gets the next stamp and joins the map.\<close>

definition addLayer :: "nat \<Rightarrow> layer \<Rightarrow> state \<Rightarrow> nat \<times> state" where
  "addLayer a l s =
     (let i = lastId s + 1 in (i, set_layers a (\<lambda>ls. ls @ [(i, l)]) (s\<lparr>lastId := i\<rparr>)))"

text \<open>
  \<^verbatim>\<open>layer.addTo(map)\<close>. A marker creates its icon when it is added, and Leaflet throws when
  the icon has no \<^verbatim>\<open>iconUrl\<close>.
\<close>

definition addTo :: "nat \<Rightarrow> layer \<Rightarrow> state \<Rightarrow> error + nat \<times> state" where
  "addTo a l s =
     (case l of
        TileLayer u t \<Rightarrow> Inr (addLayer a l s)
      | Marker k \<Rightarrow>
          (case iconUrl (marker_icon k) of
             None \<Rightarrow> Inl (Error ''iconUrl not set in Icon options (see the docs).'')
           | Some u \<Rightarrow> Inr (addLayer a l s)))"

text \<open>\<^verbatim>\<open>marker.bindPopup(content)\<close>, on the marker that has stamp \<open>i\<close>.\<close>

definition bindPopup :: "nat \<Rightarrow> nat \<Rightarrow> string \<Rightarrow> state \<Rightarrow> state" where
  "bindPopup a i content s =
     set_layers a (map (\<lambda>(j, l). if j = i
        then (j, case l of Marker m \<Rightarrow> Marker (m\<lparr>popup := Some content\<rparr>) | TileLayer u t \<Rightarrow> l)
        else (j, l))) s"

text \<open>
  \<^verbatim>\<open>map.remove()\<close>: the map lets go of its container. Leaflet throws when the map no longer
  holds the container.
\<close>

definition map_remove :: "nat \<Rightarrow> state \<Rightarrow> error + state" where
  "map_remove a s =
     (case map_of (maps s) a of
        None \<Rightarrow> Inl (Error ''Map container is being reused by another instance'')
      | Some m \<Rightarrow> Inr (s\<lparr>maps := AList.delete a (maps s)\<rparr>))"

subsection \<open>The component's functions\<close>

definition initial :: state where
  "initial =
     \<lparr>queryBy = [], queryResult = Some [], inputFromForm = None, mapRef = None,
      errors = no_errors, maps = [], lastId = 0, requests = [], console = [], pending = [],
      microtasks = []\<rparr>"

text \<open>The tile layer and the centre that \<^verbatim>\<open>createMap\<close> uses before any submission.\<close>

definition tileLayer :: layer where
  "tileLayer = TileLayer ''https://{s}.tile.openstreetmap.org/{z}/{x}/{y}.png''
     ''&copy; <a href=\"http://osm.org/copyright\">OpenStreetMap</a> contributors''"

definition default_center :: "jsnum option \<times> jsnum option" where
  "default_center = (Some 28.7041, Some 77.1025)"

text \<open>
  \<^verbatim>\<open>createMap\<close>. \<^verbatim>\<open>L.map("map", ...)\<close> throws when the container already holds a map. The
  container is stamped first, then the tile layer of the \<^verbatim>\<open>layers\<close> option when the map adds
  it.
\<close>

definition createMap :: "state \<Rightarrow> error + nat \<times> state" where
  "createMap s =
     (if maps s \<noteq> [] then Inl (Error ''Map container is already initialized.'')
      else
        let a = lastId s + 1;
            m = \<lparr>center = (case inputFromForm s of
                     Some (r, v) \<Rightarrow> (latitude v, longitude v)
                   | None \<Rightarrow> default_center),
                 zoom = 13, layers = []\<rparr>;
            s1 = s\<lparr>lastId := a, maps := maps s @ [(a, m)]\<rparr>;
            (t, s2) = addLayer a tileLayer s1
        in Inr (a, s2))"

text \<open>
  \<^verbatim>\<open>fetchQueryDetail\<close> up to its first \<^verbatim>\<open>await\<close>: with a submitted form it sends the request
  and waits; without one it falls out of the \<^verbatim>\<open>if\<close> and returns \<^verbatim>\<open>undefined\<close>.
\<close>

definition fetchQueryDetail :: "(jsnum \<Rightarrow> string) \<Rightarrow> string \<Rightarrow> state \<Rightarrow> element list option promise \<times> state" where
  "fetchQueryDetail ns q s =
     (case inputFromForm s of
        Some (r, v) \<Rightarrow>
          (Pending, s\<lparr>requests := requests s @ [GET (overpass_url ns v q)],
                      pending := pending s @ [q]\<rparr>)
      | None \<Rightarrow> (Resolved None, s))"

text \<open>
  \<^verbatim>\<open>fetchQueryDetail\<close> from its \<^verbatim>\<open>await\<close> on: the value it returns, and the console.
\<close>

definition fetchQueryDetail_resume :: "string \<Rightarrow> outcome \<Rightarrow> state \<Rightarrow> element list option \<times> state" where
  "fetchQueryDetail_resume q out s =
     (case out of
        Body els \<Rightarrow> (els, s)
      | Rejected e \<Rightarrow>
          (Some [], s\<lparr>console := console s @ [(''Error fetching '' @ q @ '' data:'', e)]\<rparr>))"

text \<open>The first effect, dependencies \<^verbatim>\<open>[queryBy, inputFromForm]\<close>, and its cleanup.\<close>

definition mapEffect :: "(jsnum \<Rightarrow> string) \<Rightarrow> state \<Rightarrow> error + state" where
  "mapEffect ns s =
     and_then (createMap s) (\<lambda>(a, s1).
       let s2 = s1\<lparr>mapRef := Some a\<rparr> in
       (case fetchQueryDetail ns (queryBy s2) s2 of
          (Resolved d, s3) \<Rightarrow> Inr (s3\<lparr>microtasks := microtasks s3 @ [d]\<rparr>)
        | (Pending, s3) \<Rightarrow> Inr s3))"

definition mapEffect_cleanup :: "state \<Rightarrow> error + state" where
  "mapEffect_cleanup s =
     (case mapRef s of None \<Rightarrow> Inl TypeError | Some a \<Rightarrow> map_remove a s)"

text \<open>
  The second effect, dependencies \<^verbatim>\<open>[queryResult, queryBy]\<close>. \<^verbatim>\<open>eachLayer\<close> walks the layers
  the map has when the walk starts. A map that was removed takes no layer: the model stops
  there with an error.
\<close>

definition addMarker :: "(jsnum \<Rightarrow> string) \<Rightarrow> nat \<Rightarrow> icon \<Rightarrow> element \<Rightarrow> state \<Rightarrow> error + state" where
  "addMarker ns a selectedIcon obj s =
     and_then (addTo a (Marker \<lparr>latlng = (lat obj, lon obj), marker_icon = selectedIcon,
                                   popup = None\<rparr>) s)
       (\<lambda>(i, s1). Inr (bindPopup a i (popupContent ns obj) s1))"

definition markerEffect :: "(jsnum \<Rightarrow> string) \<Rightarrow> state \<Rightarrow> error + state" where
  "markerEffect ns s =
     (let selectedIcon = L_icon (amenityIcons (queryBy s)) in
      case mapRef s of
        None \<Rightarrow> Inl TypeError
      | Some a \<Rightarrow>
          (case map_of (maps s) a of
             None \<Rightarrow> Inl (Error ''map was removed'')
           | Some m \<Rightarrow>
               let s1 = fold (\<lambda>(i, l) s'. if isMarker l then removeLayer a i s' else s')
                          (layers m) s
               in (case queryResult s1 of
                     None \<Rightarrow> Inr s1
                   | Some xs \<Rightarrow>
                       fold (\<lambda>obj r. and_then r (addMarker ns a selectedIcon obj)) xs (Inr s1))))"

subsection \<open>React: state updates, commits and effects\<close>

text \<open>
  A \<^verbatim>\<open>setState\<close> call whose value is the one the state holds (by \<^verbatim>\<open>Object.is\<close>) changes
  nothing. Strings compare by value and objects by identity; every array that
  \<^verbatim>\<open>setQueryResult\<close> receives is a new one (the answer just parsed, or the \<^verbatim>\<open>[]\<close> of the
  \<^verbatim>\<open>catch\<close>), so only \<^verbatim>\<open>undefined\<close> can repeat.
\<close>

definition changes :: "state \<Rightarrow> update \<Rightarrow> bool" where
  "changes s u =
     (case u of
        SetQueryBy q \<Rightarrow> q \<noteq> queryBy s
      | SetQueryResult d \<Rightarrow> (case d of None \<Rightarrow> queryResult s \<noteq> None | Some xs \<Rightarrow> True)
      | SetInputFromForm (r, v) \<Rightarrow>
          (case inputFromForm s of None \<Rightarrow> True | Some (r', v') \<Rightarrow> r \<noteq> r'))"

definition apply_update :: "update \<Rightarrow> state \<Rightarrow> state" where
  "apply_update u s =
     (case u of
        SetQueryBy q \<Rightarrow> s\<lparr>queryBy := q\<rparr>
      | SetQueryResult d \<Rightarrow> s\<lparr>queryResult := d\<rparr>
      | SetInputFromForm x \<Rightarrow> s\<lparr>inputFromForm := Some x\<rparr>)"

definition touches_map_deps :: "update \<Rightarrow> bool" where
  "touches_map_deps u =
     (case u of SetQueryBy q \<Rightarrow> True | SetInputFromForm x \<Rightarrow> True | SetQueryResult d \<Rightarrow> False)"

definition touches_marker_deps :: "update \<Rightarrow> bool" where
  "touches_marker_deps u =
     (case u of SetQueryBy q \<Rightarrow> True | SetQueryResult d \<Rightarrow> True | SetInputFromForm x \<Rightarrow> False)"

text \<open>
  One commit: the updates of one handler are applied together; when none changes the state
  nothing is rendered. Otherwise the cleanups of the effects whose dependencies changed run
  first, then those effects, in the order the component declares them.
\<close>

definition commit :: "(jsnum \<Rightarrow> string) \<Rightarrow> update list \<Rightarrow> state \<Rightarrow> error + state" where
  "commit ns us s =
     (let ch = filter (changes s) us;
          s1 = fold apply_update ch s;
          e1 = list_ex touches_map_deps ch;
          e2 = list_ex touches_marker_deps ch
      in if ch = [] then Inr s
         else and_then (when_do e1 mapEffect_cleanup s1) (\<lambda>s2.
              and_then (when_do e1 (mapEffect ns) s2) (\<lambda>s3.
              when_do e2 (markerEffect ns) s3)))"

text \<open>
  After the effects, the microtasks: each is the rest of the effect's \<^verbatim>\<open>async\<close> arrow, that is
  \<^verbatim>\<open>setQueryResult(data)\<close>, a commit of its own.
\<close>

definition drain :: "(jsnum \<Rightarrow> string) \<Rightarrow> state \<Rightarrow> error + state" where
  "drain ns s =
     fold (\<lambda>d r. and_then r (commit ns [SetQueryResult d])) (microtasks s)
       (Inr (s\<lparr>microtasks := []\<rparr>))"

definition dispatch :: "(jsnum \<Rightarrow> string) \<Rightarrow> update list \<Rightarrow> state \<Rightarrow> error + state" where
  "dispatch ns us s = and_then (commit ns us s) (drain ns)"

text \<open>The first render: both effects run, then the microtasks.\<close>

definition mount :: "(jsnum \<Rightarrow> string) \<Rightarrow> state \<Rightarrow> error + state" where
  "mount ns s = and_then (mapEffect ns s) (\<lambda>s1. and_then (markerEffect ns s1) (drain ns))"

text \<open>
  The handlers. \<^verbatim>\<open>onSubmit\<close> runs only when the schema accepts the values; Formik shows the
  messages of the schema either way. The select's \<^verbatim>\<open>onChange\<close> sets \<^verbatim>\<open>queryBy\<close>. When the
  request at position \<open>i\<close> of the requests in flight settles, \<^verbatim>\<open>fetchQueryDetail\<close> goes on and
  the effect's arrow stores what it returns; there is nothing to do for a position that holds
  no request.
\<close>

definition onSubmit :: "nat \<times> form_values \<Rightarrow> update list" where
  "onSubmit x = [SetInputFromForm x, SetQueryBy (type (snd x))]"

definition step :: "(jsnum \<Rightarrow> string) \<Rightarrow> event \<Rightarrow> state \<Rightarrow> error + state" where
  "step ns ev s =
     (case ev of
        Submit r v \<Rightarrow>
          (let s1 = s\<lparr>errors := validationSchema v\<rparr> in
           if isValid (validationSchema v) then dispatch ns (onSubmit (r, v)) s1 else Inr s1)
      | Select q \<Rightarrow> dispatch ns [SetQueryBy q] s
      | Settle i out \<Rightarrow>
          (if i < length (pending s) then
             (let q = pending s ! i;
                  s1 = s\<lparr>pending := take i (pending s) @ drop (Suc i) (pending s)\<rparr>;
                  (d, s2) = fetchQueryDetail_resume q out s1
              in dispatch ns [SetQueryResult d] s2)
           else Inr s))"

fun run :: "(jsnum \<Rightarrow> string) \<Rightarrow> event list \<Rightarrow> state \<Rightarrow> error + state" where
  "run ns [] s = Inr s"
| "run ns (ev # evs) s = and_then (step ns ev s) (run ns evs)"

text \<open>The markers a map shows, and the map the component holds.\<close>

definition markers_of :: "lmap \<Rightarrow> marker list" where
  "markers_of m = concat (map (\<lambda>(i, l). case l of Marker k \<Rightarrow> [k] | TileLayer u t \<Rightarrow> []) (layers m))"

definition current_map :: "state \<Rightarrow> lmap option" where
  "current_map s = (case mapRef s of None \<Rightarrow> None | Some a \<Rightarrow> map_of (maps s) a)"

definition shown :: "state \<Rightarrow> marker list" where
  "shown s = (case current_map s of None \<Rightarrow> [] | Some m \<Rightarrow> markers_of m)"

definition marker_for :: "(jsnum \<Rightarrow> string) \<Rightarrow> string \<Rightarrow> element \<Rightarrow> marker" where
  "marker_for ns q obj =
     \<lparr>latlng = (lat obj, lon obj), marker_icon = L_icon (amenityIcons q),
      popup = Some (popupContent ns obj)\<rparr>"


subsection \<open>Well-formed states\<close>

text \<open>The list a result stands for when it is drawn: nothing for \<^verbatim>\<open>undefined\<close>.\<close>

definition result_list :: "element list option \<Rightarrow> element list" where
  "result_list d = (case d of None \<Rightarrow> [] | Some xs \<Rightarrow> xs)"

text \<open>
  The marker effect can draw the stored result: the selected type has an icon, or there is
  nothing to draw.
\<close>

definition icon_ok :: "state \<Rightarrow> bool" where
  "icon_ok s = (amenityIcons (queryBy s) \<noteq> None \<or> result_list (queryResult s) = [])"

text \<open>
  The selected type has an icon, or nothing was submitted, nothing is in flight and there is
  nothing to draw.
\<close>

definition type_ok :: "state \<Rightarrow> bool" where
  "type_ok s =
     (amenityIcons (queryBy s) \<noteq> None
      \<or> (inputFromForm s = None \<and> pending s = [] \<and> result_list (queryResult s) = []))"

text \<open>
  The states the component is in between two events: the ref holds the one map that is bound to
  the container, the stamps of its layers are distinct and were all handed out already, no
  microtask waits, and the selected type has an icon unless nothing was submitted yet.
\<close>

definition stamps_ok :: "nat \<Rightarrow> (nat \<times> layer) list \<Rightarrow> bool" where
  "stamps_ok n ls = (distinct (map fst ls) \<and> list_all (\<lambda>(i, l). i \<le> n) ls)"

definition map_ok :: "state \<Rightarrow> bool" where
  "map_ok s =
     (case mapRef s of
        None \<Rightarrow> False
      | Some a \<Rightarrow>
          a \<le> lastId s \<and> map fst (maps s) = [a]
            \<and> list_all (\<lambda>(b, m). stamps_ok (lastId s) (layers m)) (maps s))"

definition wf :: "state \<Rightarrow> bool" where
  "wf s = (map_ok s \<and> microtasks s = [] \<and> type_ok s)"

text \<open>
  The events that the page produces: both selects offer the values of \<^verbatim>\<open>typeOptions\<close> only,
  and the select of the form holds the empty string until it is changed. A request can settle in
  any way.
\<close>

definition from_page :: "event \<Rightarrow> bool" where
  "from_page ev =
     (case ev of
        Submit r v \<Rightarrow> type v \<in> set ([] # option_values)
      | Select q \<Rightarrow> q \<in> set option_values
      | Settle i out \<Rightarrow> True)"

text \<open>The stamps of the marker layers of a state's map.\<close>

definition marker_stamps :: "state \<Rightarrow> nat list" where
  "marker_stamps s =
     (case current_map s of
        None \<Rightarrow> []
      | Some m \<Rightarrow> map fst (filter (\<lambda>(i, l). isMarker l) (layers m)))"

definition layer_stamps :: "state \<Rightarrow> nat list" where
  "layer_stamps s = (case current_map s of None \<Rightarrow> [] | Some m \<Rightarrow> map fst (layers m))"

subsection \<open>What the effects compute on a well-formed state\<close>

text \<open>
  On a well-formed state no effect throws, and what each effect does can be written down
  directly. The functions below are these closed forms; the lemmas of the next section prove
  that the effects of the component compute them.
\<close>

text \<open>The marker layer that \<^verbatim>\<open>addTo\<close> and \<^verbatim>\<open>bindPopup\<close> leave on the map for one element.\<close>

definition marker_layer :: "(jsnum \<Rightarrow> string) \<Rightarrow> icon \<Rightarrow> element \<Rightarrow> layer" where
  "marker_layer ns ic obj = Marker \<lparr>latlng = (lat obj, lon obj), marker_icon = ic,
             popup = Some (popupContent ns obj)\<rparr>"

text \<open>The marker layers of one run of the marker effect, with the stamps they get.\<close>

definition drawn :: "(jsnum \<Rightarrow> string) \<Rightarrow> state \<Rightarrow> (nat \<times> layer) list" where
  "drawn ns s = enumerate (Suc (lastId s))
     (map (\<lambda>obj. Marker (marker_for ns (queryBy s) obj)) (result_list (queryResult s)))"

text \<open>The layers of a map that are not markers.\<close>

definition others :: "(nat \<times> layer) list \<Rightarrow> (nat \<times> layer) list" where
  "others ls = filter (\<lambda>(j, l). \<not> isMarker l) ls"

text \<open>The map that \<^verbatim>\<open>createMap\<close> builds.\<close>

definition new_map :: "state \<Rightarrow> lmap" where
  "new_map s =
     \<lparr>center = (case inputFromForm s of Some (r, v) \<Rightarrow> (latitude v, longitude v)
                 | None \<Rightarrow> default_center),
      zoom = 13, layers = [(lastId s + 2, tileLayer)]\<rparr>"

text \<open>The state after the marker effect.\<close>

definition redraw :: "(jsnum \<Rightarrow> string) \<Rightarrow> state \<Rightarrow> state" where
  "redraw ns s =
     s\<lparr>lastId := lastId s + length (result_list (queryResult s)),
       maps := map (\<lambda>(a, m). (a, m\<lparr>layers := others (layers m) @ drawn ns s\<rparr>)) (maps s)\<rparr>"

text \<open>The state after the cleanup of the map effect followed by the map effect.\<close>

definition remap :: "(jsnum \<Rightarrow> string) \<Rightarrow> state \<Rightarrow> state" where
  "remap ns s =
     (case inputFromForm s of
        None \<Rightarrow>
          s\<lparr>lastId := lastId s + 2, maps := [(Suc (lastId s), new_map s)],
            mapRef := Some (Suc (lastId s)), microtasks := microtasks s @ [None]\<rparr>
      | Some (r, v) \<Rightarrow>
          s\<lparr>lastId := lastId s + 2, maps := [(Suc (lastId s), new_map s)],
            mapRef := Some (Suc (lastId s)),
            requests := requests s @ [GET (overpass_url ns v (queryBy s))],
            pending := pending s @ [queryBy s]\<rparr>)"

text \<open>The state after \<^verbatim>\<open>setQueryResult(d)\<close> and the commit it causes.\<close>

definition settle_result :: "(jsnum \<Rightarrow> string) \<Rightarrow> element list option \<Rightarrow> state \<Rightarrow> state" where
  "settle_result ns d s =
     (if changes s (SetQueryResult d) then redraw ns (s\<lparr>queryResult := d\<rparr>) else s)"

text \<open>The state after one commit.\<close>

definition committed :: "(jsnum \<Rightarrow> string) \<Rightarrow> update list \<Rightarrow> state \<Rightarrow> state" where
  "committed ns us s =
     (let ch = filter (changes s) us; s1 = fold apply_update ch s in
      if ch = [] then s
      else (if list_ex touches_marker_deps ch then redraw ns else id)
             ((if list_ex touches_map_deps ch then remap ns else id) s1))"

text \<open>The state after the microtasks that follow a commit.\<close>

definition drained :: "(jsnum \<Rightarrow> string) \<Rightarrow> state \<Rightarrow> state" where
  "drained ns s = fold (settle_result ns) (microtasks s) (s\<lparr>microtasks := []\<rparr>)"

text \<open>
  From \<open>s\<close> to \<open>s'\<close> the map was recreated with centre \<open>c\<close>: the ref holds another map than
  before, and that map is the only one bound to the container and is centred on \<open>c\<close>.
\<close>

definition recreated :: "state \<Rightarrow> state \<Rightarrow> jsnum option \<times> jsnum option \<Rightarrow> bool" where
  "recreated s s' c =
     (mapRef s \<noteq> None \<and> mapRef s' \<noteq> mapRef s
      \<and> map (\<lambda>(b, m). (Some b, center m)) (maps s') = [(mapRef s', c)])"

subsection \<open>Example inputs\<close>

text \<open>
  Concrete inputs for the examples that follow the theorems: a printing of the few numbers the
  examples use, the form values \<^verbatim>\<open>{name: "X", latitude: 28.7, longitude: 77.1, type: "hospital"}\<close>,
  a form without a name, a form \<open>moved_form\<close> with other coordinates and another type, two
  elements of an answer, the state right after the first render
  (\<open>mounted\<close>), the state \<open>submitted\<close> after a first submission of the form values whose answer
  has not arrived, the state \<open>listing\<close> after a submission that was answered with two elements,
  the state \<open>stale\<close> that the
  component is in after a submission for hospitals, the answer to it, and a change of the select
  to schools whose answer has not arrived, and the state \<open>overwritten\<close> that it is in when the
  select was changed before any answer and the answer for hospitals arrived after the one for
  schools.
\<close>

definition X_values :: form_values where
  "X_values = \<lparr>name = ''X'', latitude = Some (287 / 10), longitude = Some (771 / 10),
     type = ''hospital''\<rparr>"

definition mounted :: state where
  "mounted =
     \<lparr>queryBy = [], queryResult = None, inputFromForm = None, mapRef = Some 1,
      errors = no_errors,
      maps = [(1, \<lparr>center = default_center, zoom = 13, layers = [(2, tileLayer)]\<rparr>)],
      lastId = 2, requests = [], console = [], pending = [], microtasks = []\<rparr>"

definition show_num :: "jsnum \<Rightarrow> string" where
  "show_num x =
     (if x = 1 then ''1'' else if x = 2 then ''2'' else if x = 3 then ''3''
      else if x = 4 then ''4'' else if x = 287 / 10 then ''28.7''
      else if x = 771 / 10 then ''77.1'' else ''0'')"

definition hospital_node :: element where
  "hospital_node = \<lparr>lat = 1, lon = 2, tags = Some [''name'' \<mapsto> ''City Clinic'']\<rparr>"

definition school_node :: element where
  "school_node = \<lparr>lat = 3, lon = 4, tags = None\<rparr>"

definition stale :: state where
  "stale =
     \<lparr>queryBy = ''school'', queryResult = Some [hospital_node],
      inputFromForm = Some (7, X_values), mapRef = Some 6, errors = no_errors,
      maps = [(6, \<lparr>center = (Some (287 / 10), Some (771 / 10)), zoom = 13,
                   layers = [(7, tileLayer),
                             (8, Marker (marker_for show_num ''school'' hospital_node))]\<rparr>)],
      lastId = 8,
      requests = [GET (overpass_url show_num X_values ''hospital''),
                  GET (overpass_url show_num X_values ''school'')],
      console = [], pending = [''school''], microtasks = []\<rparr>"

definition overwritten :: state where
  "overwritten =
     \<lparr>queryBy = ''school'', queryResult = Some [hospital_node],
      inputFromForm = Some (7, X_values), mapRef = Some 5, errors = no_errors,
      maps = [(5, \<lparr>center = (Some (287 / 10), Some (771 / 10)), zoom = 13,
                   layers = [(6, tileLayer),
                             (8, Marker (marker_for show_num ''school'' hospital_node))]\<rparr>)],
      lastId = 8,
      requests = [GET (overpass_url show_num X_values ''hospital''),
                  GET (overpass_url show_num X_values ''school'')],
      console = [], pending = [], microtasks = []\<rparr>"

definition listing :: state where
  "listing =
     \<lparr>queryBy = ''hospital'', queryResult = Some [hospital_node, school_node],
      inputFromForm = Some (7, X_values), mapRef = Some 3, errors = no_errors,
      maps = [(3, \<lparr>center = (Some (287 / 10), Some (771 / 10)), zoom = 13,
                   layers = [(4, tileLayer),
                             (5, Marker (marker_for show_num ''hospital'' hospital_node)),
                             (6, Marker (marker_for show_num ''hospital'' school_node))]\<rparr>)],
      lastId = 6,
      requests = [GET (overpass_url show_num X_values ''hospital'')],
      console = [], pending = [], microtasks = []\<rparr>"

definition unnamed_form :: form_values where
  "unnamed_form = \<lparr>name = [], latitude = Some 1, longitude = Some 2, type = ''hospital''\<rparr>"

definition submitted :: state where
  "submitted =
     \<lparr>queryBy = ''hospital'', queryResult = None,
      inputFromForm = Some (7, X_values), mapRef = Some 3, errors = no_errors,
      maps = [(3, \<lparr>center = (Some (287 / 10), Some (771 / 10)), zoom = 13,
                   layers = [(4, tileLayer)]\<rparr>)],
      lastId = 4,
      requests = [GET (overpass_url show_num X_values ''hospital'')],
      console = [], pending = [''hospital''], microtasks = []\<rparr>"

definition moved_form :: form_values where
  "moved_form = \<lparr>name = ''Y'', latitude = Some 3, longitude = Some 4, type = ''restaurant''\<rparr>"

section \<open>Lemmas\<close>

lemma set_layers_single:
  "maps s = [(a, m)] \<Longrightarrow> set_layers a f s = s\<lparr>maps := [(a, m\<lparr>layers := f (layers m)\<rparr>)]\<rparr>"
  by (simp add: set_layers_def)

lemma bind_old_unchanged:
  "list_all (\<lambda>(i, l). i \<le> n) ls \<Longrightarrow>
   map (\<lambda>(j, l). if j = Suc n then (j, g l) else (j, l)) ls = ls"
  by (induction ls) auto

lemma addMarker_single:
  assumes "maps s = [(a, m)]" and "list_all (\<lambda>(i, l). i \<le> lastId s) (layers m)"
    and "iconUrl ic = Some u"
  shows "addMarker ns a ic obj s =
     Inr (s\<lparr>lastId := Suc (lastId s),
       maps := [(a, m\<lparr>layers := layers m @
         [(Suc (lastId s), Marker \<lparr>latlng = (lat obj, lon obj), marker_icon = ic,
             popup = Some (popupContent ns obj)\<rparr>)]\<rparr>)]\<rparr>)"
  using assms
  by (simp add: addMarker_def addTo_def addLayer_def and_then_def bindPopup_def set_layers_def
      Let_def bind_old_unchanged)

lemma fold_addMarker:
  "maps s = [(a, m)] \<Longrightarrow> list_all (\<lambda>(i, l). i \<le> lastId s) (layers m) \<Longrightarrow>
   iconUrl ic = Some u \<Longrightarrow>
   fold (\<lambda>obj r. and_then r (addMarker ns a ic obj)) xs (Inr s) =
     Inr (s\<lparr>lastId := lastId s + length xs,
       maps := [(a, m\<lparr>layers := layers m @
         enumerate (Suc (lastId s)) (map (marker_layer ns ic) xs)\<rparr>)]\<rparr>)"
proof (induction xs arbitrary: s m)
  case Nil
  then show ?case by simp
next
  case (Cons x xs)
  let ?m1 = "m\<lparr>layers := layers m @ [(Suc (lastId s), marker_layer ns ic x)]\<rparr>"
  let ?s1 = "s\<lparr>lastId := Suc (lastId s), maps := [(a, ?m1)]\<rparr>"
  have step: "addMarker ns a ic x s = Inr ?s1"
    using Cons.prems by (simp add: addMarker_single marker_layer_def)
  have b: "list_all (\<lambda>(i, l). i \<le> lastId ?s1) (layers ?m1)"
    using Cons.prems(2) by (auto simp: list_all_iff)
  have "fold (\<lambda>obj r. and_then r (addMarker ns a ic obj)) xs (Inr ?s1) =
     Inr (?s1\<lparr>lastId := lastId ?s1 + length xs,
       maps := [(a, ?m1\<lparr>layers := layers ?m1 @
         enumerate (Suc (lastId ?s1)) (map (marker_layer ns ic) xs)\<rparr>)]\<rparr>)"
    by (rule Cons.IH) (simp, rule b, rule Cons.prems(3))
  then show ?case
    by (simp add: step and_then_def)
qed

lemma fold_removeLayer:
  "maps s = [(a, m)] \<Longrightarrow>
   fold (\<lambda>(i, l) s'. if isMarker l then removeLayer a i s' else s') ls s =
     s\<lparr>maps := [(a, m\<lparr>layers :=
        filter (\<lambda>(j, l'). j \<notin> fst ` {x \<in> set ls. isMarker (snd x)}) (layers m)\<rparr>)]\<rparr>"
proof (induction ls arbitrary: s m)
  case Nil
  then show ?case by simp
next
  case (Cons p ls)
  obtain i l where p: "p = (i, l)" by (cases p)
  show ?case
  proof (cases "isMarker l")
    case True
    let ?m1 = "m\<lparr>layers := filter (\<lambda>(j, l). j \<noteq> i) (layers m)\<rparr>"
    let ?s1 = "s\<lparr>maps := [(a, ?m1)]\<rparr>"
    have r: "removeLayer a i s = ?s1"
      using Cons.prems by (simp add: removeLayer_def set_layers_single)
    have "maps ?s1 = [(a, ?m1)]" by simp
    have st: "fst ` {x \<in> set (p # ls). isMarker (snd x)} =
              insert i (fst ` {x \<in> set ls. isMarker (snd x)})"
      using True by (force simp: p)
    have fl: "filter (\<lambda>(j, l'). j \<notin> fst ` {x \<in> set ls. isMarker (snd x)}) (layers ?m1) =
              filter (\<lambda>(j, l'). j \<notin> fst ` {x \<in> set (p # ls). isMarker (snd x)}) (layers m)"
      unfolding st by (induction "layers m") (auto simp: case_prod_unfold)
    from Cons.IH [OF \<open>maps ?s1 = [(a, ?m1)]\<close>] show ?thesis
      using True unfolding fl by (simp add: p r)
  next
    case False
    have st: "{x \<in> set (p # ls). isMarker (snd x)} = {x \<in> set ls. isMarker (snd x)}"
      using False by (auto simp: p)
    from Cons.IH [OF Cons.prems] show ?thesis
      using False unfolding st by (simp add: p)
  qed
qed

lemma distinct_marker_filter:
  assumes "distinct (map fst ls)"
  shows "filter (\<lambda>(j, l'). j \<notin> fst ` {x \<in> set ls. isMarker (snd x)}) ls =
         filter (\<lambda>(j, l). \<not> isMarker l) ls"
proof (rule filter_cong [OF refl])
  fix x assume x: "x \<in> set ls"
  obtain j l where jl: "x = (j, l)" by (cases x)
  have "j \<in> fst ` {x \<in> set ls. isMarker (snd x)} \<longleftrightarrow> isMarker l"
  proof
    assume "j \<in> fst ` {x \<in> set ls. isMarker (snd x)}"
    then obtain l' where m: "(j, l') \<in> set ls" "isMarker l'" by auto
    from eq_key_imp_eq_value [OF assms m(1)] x jl have "l' = l" by simp
    with m show "isMarker l" by simp
  next
    assume "isMarker l"
    with x jl show "j \<in> fst ` {x \<in> set ls. isMarker (snd x)}" by force
  qed
  then show "(case x of (j, l') \<Rightarrow> j \<notin> fst ` {x \<in> set ls. isMarker (snd x)}) =
             (case x of (j, l) \<Rightarrow> \<not> isMarker l)"
    by (simp add: jl)
qed

lemma markerEffect_eq:
  assumes "mapRef s = Some a" and "maps s = [(a, m)]" and "stamps_ok (lastId s) (layers m)"
    and "icon_ok s"
  shows "markerEffect ns s =
     Inr (s\<lparr>lastId := lastId s + length (result_list (queryResult s)),
            maps := [(a, m\<lparr>layers := others (layers m) @ drawn ns s\<rparr>)]\<rparr>)"
proof -
  let ?m1 = "m\<lparr>layers := others (layers m)\<rparr>"
  let ?s1 = "s\<lparr>maps := [(a, ?m1)]\<rparr>"
  have rm: "fold (\<lambda>(i, l) s'. if isMarker l then removeLayer a i s' else s') (layers m) s = ?s1"
    using assms by (simp add: fold_removeLayer distinct_marker_filter stamps_ok_def others_def)
  have b: "list_all (\<lambda>(i, l). i \<le> lastId ?s1) (layers ?m1)"
    using assms(3) by (auto simp: stamps_ok_def list_all_iff others_def)
  have m1: "maps ?s1 = [(a, ?m1)]" by simp
  show ?thesis
  proof (cases "queryResult s")
    case None
    then show ?thesis
      using assms(1,2) rm
      by (simp add: markerEffect_def Let_def result_list_def drawn_def)
  next
    case (Some xs)
    show ?thesis
    proof (cases "amenityIcons (queryBy s)")
      case None
      with assms(4) Some have "xs = []" by (simp add: icon_ok_def result_list_def)
      then show ?thesis
        using assms(1,2) Some rm
        by (simp add: markerEffect_def Let_def result_list_def drawn_def)
    next
      case (Some u)
      have ic: "iconUrl (L_icon (amenityIcons (queryBy s))) = Some u"
        by (simp add: L_icon_def Some)
      have mkeq: "marker_layer ns (L_icon (amenityIcons (queryBy s))) =
          (\<lambda>obj. Marker (marker_for ns (queryBy s) obj))"
        by (rule ext) (simp add: marker_layer_def marker_for_def)
      show ?thesis
        using assms(1,2) \<open>queryResult s = Some xs\<close> rm
          fold_addMarker [OF m1 b ic, of ns xs]
        by (simp add: markerEffect_def Let_def result_list_def drawn_def mkeq)
    qed
  qed
qed

lemma createMap_eq:
  "maps s = [] \<Longrightarrow>
   createMap s = Inr (Suc (lastId s),
     s\<lparr>lastId := lastId s + 2, maps := [(Suc (lastId s), new_map s)]\<rparr>)"
  by (simp add: createMap_def addLayer_def set_layers_def Let_def new_map_def)

lemma createMap_throws:
  "maps s \<noteq> [] \<Longrightarrow> createMap s = Inl (Error ''Map container is already initialized.'')"
  by (simp add: createMap_def)

lemma cleanup_eq:
  "mapRef s = Some a \<Longrightarrow> maps s = [(a, m)] \<Longrightarrow> mapEffect_cleanup s = Inr (s\<lparr>maps := []\<rparr>)"
  by (simp add: mapEffect_cleanup_def map_remove_def)

lemma mapEffect_eq:
  "maps s = [] \<Longrightarrow>
   mapEffect ns s = Inr
     (case inputFromForm s of
        None \<Rightarrow>
          s\<lparr>lastId := lastId s + 2, maps := [(Suc (lastId s), new_map s)],
            mapRef := Some (Suc (lastId s)), microtasks := microtasks s @ [None]\<rparr>
      | Some (r, v) \<Rightarrow>
          s\<lparr>lastId := lastId s + 2, maps := [(Suc (lastId s), new_map s)],
            mapRef := Some (Suc (lastId s)),
            requests := requests s @ [GET (overpass_url ns v (queryBy s))],
            pending := pending s @ [queryBy s]\<rparr>)"
  by (simp add: mapEffect_def createMap_eq and_then_def fetchQueryDetail_def split: option.splits)

lemma map_okE:
  assumes "map_ok s"
  obtains a m where "mapRef s = Some a" "maps s = [(a, m)]" "a \<le> lastId s"
    "stamps_ok (lastId s) (layers m)"
proof -
  from assms obtain a where a: "mapRef s = Some a" "a \<le> lastId s" "map fst (maps s) = [a]"
    "list_all (\<lambda>(b, m). stamps_ok (lastId s) (layers m)) (maps s)"
    by (auto simp: map_ok_def split: option.splits)
  from a(3) obtain m where m: "maps s = [(a, m)]" by (cases "maps s") auto
  with a that show thesis by simp
qed

lemma stamps_ok_redraw:
  assumes "stamps_ok n ls"
  shows "stamps_ok (n + length xs) (others ls @ enumerate (Suc n) xs)"
proof -
  have d: "distinct (map fst (others ls))"
    using assms by (simp add: stamps_ok_def others_def distinct_map_filter)
  have b: "\<forall>p \<in> set (others ls). fst p \<le> n"
    using assms by (auto simp: stamps_ok_def others_def list_all_iff)
  have e: "\<forall>p \<in> set (enumerate (Suc n) xs). Suc n \<le> fst p \<and> fst p \<le> n + length xs"
    by (auto simp: in_set_enumerate_eq)
  have "distinct (map fst (others ls @ enumerate (Suc n) xs))"
    using d b e by (fastforce simp: distinct_enumerate)
  moreover have "list_all (\<lambda>(i, l). i \<le> n + length xs) (others ls @ enumerate (Suc n) xs)"
    using b e by (fastforce simp: list_all_iff)
  ultimately show ?thesis by (simp add: stamps_ok_def)
qed

lemma markers_of_redraw:
  "markers_of (m\<lparr>layers := others ls @ enumerate n (map (\<lambda>x. Marker (f x)) xs)\<rparr>) = map f xs"
proof -
  have a: "concat (map (\<lambda>(i, l). case l of Marker k \<Rightarrow> [k] | TileLayer u t \<Rightarrow> []) (others ls)) = []"
    by (induction ls) (auto simp: others_def isMarker_def split: layer.splits)
  have b: "concat (map (\<lambda>(i, l). case l of Marker k \<Rightarrow> [k] | TileLayer u t \<Rightarrow> [])
             (enumerate n (map (\<lambda>x. Marker (f x)) xs))) = map f xs"
    by (induction xs arbitrary: n) auto
  show ?thesis by (simp add: markers_of_def a b)
qed

lemma markerEffect_redraw:
  "map_ok s \<Longrightarrow> icon_ok s \<Longrightarrow> markerEffect ns s = Inr (redraw ns s)"
  by (erule map_okE) (simp add: markerEffect_eq redraw_def)

lemma type_ok_icon_ok: "type_ok s \<Longrightarrow> icon_ok s"
  by (auto simp: type_ok_def icon_ok_def)

lemma icon_ok_remap [simp]: "icon_ok (remap ns s) = icon_ok s"
  by (simp add: icon_ok_def remap_def split: option.splits)

lemma map_ok_redraw: "map_ok s \<Longrightarrow> map_ok (redraw ns s)"
proof (erule map_okE)
  fix a m assume am: "mapRef s = Some a" "maps s = [(a, m)]" "a \<le> lastId s"
    "stamps_ok (lastId s) (layers m)"
  show "map_ok (redraw ns s)"
    using am stamps_ok_redraw [OF am(4), of "map (\<lambda>obj. Marker (marker_for ns (queryBy s) obj))
      (result_list (queryResult s))"]
    by (simp add: map_ok_def redraw_def drawn_def)
qed

lemma shown_redraw:
  "map_ok s \<Longrightarrow> shown (redraw ns s) = map (marker_for ns (queryBy s)) (result_list (queryResult s))"
  by (erule map_okE)
     (simp add: shown_def current_map_def redraw_def drawn_def markers_of_redraw)

lemma remap_eq:
  "map_ok s \<Longrightarrow> and_then (mapEffect_cleanup s) (mapEffect ns) = Inr (remap ns s)"
  by (erule map_okE)
     (simp add: cleanup_eq and_then_def mapEffect_eq remap_def new_map_def split: option.splits)

lemma stamps_ok_tile: "stamps_ok (n + 2) [(n + 2, l)]"
  by (simp add: stamps_ok_def)

lemma map_ok_remap: "map_ok (remap ns s)"
  using stamps_ok_tile [of "lastId s"]
  by (simp add: map_ok_def remap_def new_map_def split: option.splits)

lemma fold_apply_update_frame:
  "maps (fold apply_update us s) = maps s \<and> mapRef (fold apply_update us s) = mapRef s
   \<and> lastId (fold apply_update us s) = lastId s \<and> errors (fold apply_update us s) = errors s
   \<and> requests (fold apply_update us s) = requests s \<and> console (fold apply_update us s) = console s
   \<and> pending (fold apply_update us s) = pending s
   \<and> microtasks (fold apply_update us s) = microtasks s"
  by (induction us arbitrary: s) (auto simp: apply_update_def split: update.splits)

lemma map_ok_updates: "map_ok (fold apply_update us s) = map_ok s"
  by (simp add: map_ok_def fold_apply_update_frame split: option.splits)

lemma commit_eq:
  assumes "map_ok s" and "icon_ok (fold apply_update (filter (changes s) us) s)"
  shows "commit ns us s = Inr
     (let ch = filter (changes s) us; s1 = fold apply_update ch s in
      if ch = [] then s
      else (if list_ex touches_marker_deps ch then redraw ns else id)
             ((if list_ex touches_map_deps ch then remap ns else id) s1))"
proof -
  let ?ch = "filter (changes s) us"
  let ?s1 = "fold apply_update ?ch s"
  have ok1: "map_ok ?s1" using assms(1) by (simp add: map_ok_updates)
  have r: "and_then (mapEffect_cleanup ?s1) (mapEffect ns) = Inr (remap ns ?s1)"
    using ok1 by (rule remap_eq)
  have c: "\<And>f. and_then (mapEffect_cleanup ?s1) (\<lambda>s2. and_then (mapEffect ns s2) f)
        = and_then (and_then (mapEffect_cleanup ?s1) (mapEffect ns)) f"
    by (simp add: and_then_def split: sum.splits)
  show ?thesis
  proof (cases "list_ex touches_map_deps ?ch")
    case True
    then show ?thesis
      unfolding commit_def Let_def
      by (simp add: when_do_def c r)
         (simp add: and_then_def when_do_def markerEffect_redraw map_ok_remap assms(2))
  next
    case False
    then show ?thesis
      unfolding commit_def Let_def
      by (simp add: when_do_def and_then_def markerEffect_redraw ok1 assms(2))
  qed
qed

lemma map_ok_commit:
  assumes "map_ok s"
  shows "map_ok (let ch = filter (changes s) us; s1 = fold apply_update ch s in
      if ch = [] then s
      else (if list_ex touches_marker_deps ch then redraw ns else id)
             ((if list_ex touches_map_deps ch then remap ns else id) s1))"
  using assms by (simp add: Let_def map_ok_redraw map_ok_remap map_ok_updates)

lemma commit_result_eq:
  assumes "map_ok s" and "icon_ok (s\<lparr>queryResult := d\<rparr>)"
  shows "commit ns [SetQueryResult d] s = Inr (settle_result ns d s)"
proof -
  have "icon_ok (fold apply_update (filter (changes s) [SetQueryResult d]) s)"
    using assms(2)
    by (auto simp: apply_update_def changes_def icon_ok_def result_list_def split: option.splits)
  from commit_eq [OF assms(1) this] show ?thesis
    by (simp add: settle_result_def Let_def touches_marker_deps_def touches_map_deps_def
      apply_update_def)
qed

lemma map_ok_field_upd [simp]:
  "map_ok (s\<lparr>queryResult := d\<rparr>) = map_ok s"
  "map_ok (s\<lparr>queryBy := q\<rparr>) = map_ok s"
  "map_ok (s\<lparr>inputFromForm := x\<rparr>) = map_ok s"
  "map_ok (s\<lparr>errors := e\<rparr>) = map_ok s"
  "map_ok (s\<lparr>pending := p\<rparr>) = map_ok s"
  "map_ok (s\<lparr>console := c\<rparr>) = map_ok s"
  "map_ok (s\<lparr>requests := rq\<rparr>) = map_ok s"
  "map_ok (s\<lparr>microtasks := mt\<rparr>) = map_ok s"
  by (simp_all add: map_ok_def split: option.splits)

lemma map_ok_settle: "map_ok s \<Longrightarrow> map_ok (settle_result ns d s)"
  by (simp add: settle_result_def map_ok_redraw)

lemma fold_settle:
  "map_ok s \<Longrightarrow>
   list_all (\<lambda>d. amenityIcons (queryBy s) \<noteq> None \<or> result_list d = []) ds \<Longrightarrow>
   fold (\<lambda>d r. and_then r (commit ns [SetQueryResult d])) ds (Inr s) =
     Inr (fold (settle_result ns) ds s)"
proof (induction ds arbitrary: s)
  case Nil
  then show ?case by simp
next
  case (Cons d ds)
  have ok: "map_ok (settle_result ns d s)" using Cons.prems(1) by (rule map_ok_settle)
  have q: "queryBy (settle_result ns d s) = queryBy s"
    by (simp add: settle_result_def redraw_def)
  have i: "icon_ok (s\<lparr>queryResult := d\<rparr>)"
    using Cons.prems(2) by (simp add: icon_ok_def)
  have r: "list_all (\<lambda>d'. amenityIcons (queryBy (settle_result ns d s)) \<noteq> None
      \<or> result_list d' = []) ds"
    using Cons.prems(2) by (simp add: q)
  show ?case
    using Cons.IH [OF ok r] by (simp add: and_then_def commit_result_eq [OF Cons.prems(1) i])
qed

lemma drain_eq:
  "map_ok s \<Longrightarrow>
   list_all (\<lambda>d. amenityIcons (queryBy s) \<noteq> None \<or> result_list d = []) (microtasks s) \<Longrightarrow>
   drain ns s = Inr (fold (settle_result ns) (microtasks s) (s\<lparr>microtasks := []\<rparr>))"
  unfolding drain_def by (rule fold_settle) simp_all

lemma drain_idle: "map_ok s \<Longrightarrow> microtasks s = [] \<Longrightarrow> drain ns s = Inr s"
  by (simp add: drain_eq)

lemma commit_committed:
  "map_ok s \<Longrightarrow> icon_ok (fold apply_update (filter (changes s) us) s) \<Longrightarrow>
   commit ns us s = Inr (committed ns us s)"
  by (simp add: commit_eq committed_def)

lemma map_ok_committed: "map_ok s \<Longrightarrow> map_ok (committed ns us s)"
  unfolding committed_def by (rule map_ok_commit)

lemma drain_drained:
  "map_ok s \<Longrightarrow> list_all (\<lambda>d. result_list d = []) (microtasks s) \<Longrightarrow>
   drain ns s = Inr (drained ns s)"
  by (simp add: drain_eq drained_def list_all_iff)

lemma redraw_fields [simp]:
  "queryBy (redraw ns s) = queryBy s" "queryResult (redraw ns s) = queryResult s"
  "inputFromForm (redraw ns s) = inputFromForm s" "mapRef (redraw ns s) = mapRef s"
  "errors (redraw ns s) = errors s" "requests (redraw ns s) = requests s"
  "console (redraw ns s) = console s" "pending (redraw ns s) = pending s"
  "microtasks (redraw ns s) = microtasks s"
  "lastId (redraw ns s) = lastId s + length (result_list (queryResult s))"
  "map fst (maps (redraw ns s)) = map fst (maps s)"
  "map (\<lambda>(b, m). center m) (maps (redraw ns s)) = map (\<lambda>(b, m). center m) (maps s)"
  by (simp_all add: redraw_def case_prod_unfold comp_def)

lemma remap_fields [simp]:
  "queryBy (remap ns s) = queryBy s" "queryResult (remap ns s) = queryResult s"
  "inputFromForm (remap ns s) = inputFromForm s" "mapRef (remap ns s) = Some (Suc (lastId s))"
  "errors (remap ns s) = errors s" "console (remap ns s) = console s"
  "lastId (remap ns s) = lastId s + 2"
  "maps (remap ns s) = [(Suc (lastId s), new_map s)]"
  by (simp_all add: remap_def split: option.splits)

lemma remap_requests:
  "requests (remap ns s) = requests s @
     (case inputFromForm s of None \<Rightarrow> [] | Some (r, v) \<Rightarrow> [GET (overpass_url ns v (queryBy s))])"
  "pending (remap ns s) = pending s @
     (case inputFromForm s of None \<Rightarrow> [] | Some (r, v) \<Rightarrow> [queryBy s])"
  "microtasks (remap ns s) = microtasks s @
     (case inputFromForm s of None \<Rightarrow> [None] | Some (r, v) \<Rightarrow> [])"
  by (simp_all add: remap_def split: option.splits)

lemma settle_fields [simp]:
  "queryBy (settle_result ns d s) = queryBy s" "queryResult (settle_result ns d s) = d"
  "inputFromForm (settle_result ns d s) = inputFromForm s"
  "mapRef (settle_result ns d s) = mapRef s"
  "errors (settle_result ns d s) = errors s" "requests (settle_result ns d s) = requests s"
  "console (settle_result ns d s) = console s" "pending (settle_result ns d s) = pending s"
  "microtasks (settle_result ns d s) = microtasks s"
  "map fst (maps (settle_result ns d s)) = map fst (maps s)"
  "map (\<lambda>(b, m). center m) (maps (settle_result ns d s)) = map (\<lambda>(b, m). center m) (maps s)"
  by (auto simp: settle_result_def changes_def split: option.splits)

lemma fold_settle_fields [simp]:
  "queryBy (fold (settle_result ns) ds s) = queryBy s"
  "inputFromForm (fold (settle_result ns) ds s) = inputFromForm s"
  "mapRef (fold (settle_result ns) ds s) = mapRef s"
  "errors (fold (settle_result ns) ds s) = errors s"
  "requests (fold (settle_result ns) ds s) = requests s"
  "console (fold (settle_result ns) ds s) = console s"
  "pending (fold (settle_result ns) ds s) = pending s"
  "microtasks (fold (settle_result ns) ds s) = microtasks s"
  "map fst (maps (fold (settle_result ns) ds s)) = map fst (maps s)"
  "map (\<lambda>(b, m). center m) (maps (fold (settle_result ns) ds s)) = map (\<lambda>(b, m). center m) (maps s)"
  by (induction ds arbitrary: s) simp_all

lemma map_ok_fold_settle: "map_ok s \<Longrightarrow> map_ok (fold (settle_result ns) ds s)"
  by (induction ds arbitrary: s) (simp_all add: map_ok_settle)

lemma drained_fields [simp]:
  "queryBy (drained ns s) = queryBy s"
  "inputFromForm (drained ns s) = inputFromForm s"
  "mapRef (drained ns s) = mapRef s"
  "errors (drained ns s) = errors s"
  "requests (drained ns s) = requests s"
  "console (drained ns s) = console s"
  "pending (drained ns s) = pending s"
  "microtasks (drained ns s) = []"
  "map fst (maps (drained ns s)) = map fst (maps s)"
  "map (\<lambda>(b, m). center m) (maps (drained ns s)) = map (\<lambda>(b, m). center m) (maps s)"
  by (simp_all add: drained_def)

lemma drained_idle: "microtasks s = [] \<Longrightarrow> drained ns s = s"
  by (simp add: drained_def)

lemma microtasks_committed:
  "microtasks s = [] \<Longrightarrow> list_all (\<lambda>d. result_list d = []) (microtasks (committed ns us s))"
  by (simp add: committed_def Let_def fold_apply_update_frame remap_requests result_list_def
      split: option.splits)

lemma dispatch_eq:
  assumes "map_ok s" and "microtasks s = []"
    and "icon_ok (fold apply_update (filter (changes s) us) s)"
  shows "dispatch ns us s = Inr (drained ns (committed ns us s))"
  using assms
  by (simp add: dispatch_def commit_committed and_then_def drain_drained map_ok_committed
      microtasks_committed)

lemma type_ok_committed:
  assumes "type_ok (fold apply_update (filter (changes s) us) s)" and "type_ok s"
  shows "type_ok (committed ns us s)"
proof -
  have "type_ok (remap ns s1)" if "type_ok s1" for s1
    using that by (auto simp: type_ok_def remap_requests split: option.splits)
  moreover have "type_ok (redraw ns s1)" if "type_ok s1" for s1
    using that by (simp add: type_ok_def)
  ultimately show ?thesis
    using assms by (simp add: committed_def Let_def)
qed

lemma type_ok_fold_settle:
  "type_ok s \<Longrightarrow> list_all (\<lambda>d. result_list d = []) ds \<Longrightarrow>
   type_ok (fold (settle_result ns) ds s)"
proof (induction ds arbitrary: s)
  case Nil
  then show ?case by simp
next
  case (Cons d ds)
  have "type_ok (settle_result ns d s)"
    using Cons.prems by (auto simp: type_ok_def)
  from Cons.IH [OF this] Cons.prems(2) show ?case by simp
qed

lemma type_ok_field_upd [simp]:
  "type_ok (s\<lparr>errors := e\<rparr>) = type_ok s"
  "type_ok (s\<lparr>console := c\<rparr>) = type_ok s"
  "type_ok (s\<lparr>microtasks := mt\<rparr>) = type_ok s"
  "type_ok (s\<lparr>requests := rq\<rparr>) = type_ok s"
  by (simp_all add: type_ok_def)

lemma wf_drained:
  assumes "map_ok s" and "type_ok s" and "list_all (\<lambda>d. result_list d = []) (microtasks s)"
  shows "wf (drained ns s)"
proof -
  have "type_ok (s\<lparr>microtasks := []\<rparr>)" using assms(2) by simp
  from type_ok_fold_settle [OF this assms(3)] assms(1) show ?thesis
    by (simp add: wf_def drained_def map_ok_fold_settle)
qed

lemma wf_dispatch:
  assumes "wf s" and "type_ok (fold apply_update (filter (changes s) us) s)"
  shows "\<exists>s'. dispatch ns us s = Inr s' \<and> wf s'"
proof -
  from assms(1) have ok: "map_ok s" and mt: "microtasks s = []" and t: "type_ok s"
    by (simp_all add: wf_def)
  have "wf (drained ns (committed ns us s))"
    by (rule wf_drained)
       (simp_all add: map_ok_committed ok type_ok_committed assms(2) t microtasks_committed mt)
  then show ?thesis
    by (simp add: dispatch_eq [OF ok mt type_ok_icon_ok [OF assms(2)]])
qed

lemma queryBy_onSubmit:
  "queryBy (fold apply_update (filter (changes s) (onSubmit (r, v))) s) = type v"
  by (simp add: onSubmit_def changes_def apply_update_def split: option.splits)

lemma queryBy_result:
  "queryBy (fold apply_update (filter (changes s) [SetQueryResult d]) s) = queryBy s"
  by (simp add: apply_update_def)

lemma icon_of_option: "q \<in> set option_values \<Longrightarrow> amenityIcons q \<noteq> None"
  by (auto simp: option_values_def typeOptions_def amenityIcons_def)

lemma step_wf:
  assumes "wf s" and "from_page ev"
  shows "\<exists>s'. step ns ev s = Inr s' \<and> wf s'"
proof (cases ev)
  case (Submit r v)
  let ?s1 = "s\<lparr>errors := validationSchema v\<rparr>"
  have w: "wf ?s1" using assms(1) by (simp add: wf_def)
  show ?thesis
  proof (cases "isValid (validationSchema v)")
    case True
    then have "type v \<noteq> []"
      by (auto simp: isValid_def validationSchema_def no_errors_def yup_string_required_def
          split: if_splits)
    with assms(2) have "type v \<in> set option_values" by (simp add: from_page_def Submit)
    then have "amenityIcons (type v) \<noteq> None" by (rule icon_of_option)
    then have "type_ok (fold apply_update (filter (changes ?s1) (onSubmit (r, v))) ?s1)"
      by (simp add: type_ok_def queryBy_onSubmit)
    from wf_dispatch [OF w this] True show ?thesis
      by (simp add: step_def Submit Let_def)
  next
    case False
    with w show ?thesis by (simp add: step_def Submit Let_def)
  qed
next
  case (Select q)
  from assms(2) have "amenityIcons q \<noteq> None"
    by (simp add: from_page_def Select icon_of_option)
  then have "type_ok (fold apply_update (filter (changes s) [SetQueryBy q]) s)"
    using assms(1) by (simp add: type_ok_def apply_update_def wf_def)
  from wf_dispatch [OF assms(1) this] show ?thesis by (simp add: step_def Select)
next
  case (Settle i out)
  show ?thesis
  proof (cases "i < length (pending s)")
    case True
    obtain d s2 where r: "fetchQueryDetail_resume (pending s ! i) out
        (s\<lparr>pending := take i (pending s) @ drop (Suc i) (pending s)\<rparr>) = (d, s2)"
      by (cases "fetchQueryDetail_resume (pending s ! i) out
        (s\<lparr>pending := take i (pending s) @ drop (Suc i) (pending s)\<rparr>)")
    from True have "pending s \<noteq> []" by auto
    with assms(1) have ic: "amenityIcons (queryBy s) \<noteq> None"
      by (auto simp: wf_def type_ok_def)
    have q2: "queryBy s2 = queryBy s"
      using r by (auto simp: fetchQueryDetail_resume_def split: outcome.splits)
    have w2: "wf s2"
      using r assms(1) ic
      by (auto simp: fetchQueryDetail_resume_def wf_def type_ok_def split: outcome.splits)
    have "type_ok (fold apply_update (filter (changes s2) [SetQueryResult d]) s2)"
      using ic unfolding type_ok_def queryBy_result q2 by simp
    from wf_dispatch [OF w2 this] show ?thesis
      using True r by (simp add: step_def Settle Let_def)
  next
    case False
    with assms(1) show ?thesis by (simp add: step_def Settle)
  qed
qed

lemma run_wf:
  "wf s \<Longrightarrow> list_all from_page evs \<Longrightarrow> \<exists>s'. run ns evs s = Inr s' \<and> wf s'"
proof (induction evs arbitrary: s)
  case Nil
  then show ?case by simp
next
  case (Cons ev evs)
  from Cons.prems have "from_page ev" and rest: "list_all from_page evs" by simp_all
  from step_wf [OF Cons.prems(1) this(1)] obtain s1 where s1: "step ns ev s = Inr s1" "wf s1"
    by blast
  from Cons.IH [OF s1(2) rest] show ?case by (simp add: s1(1) and_then_def)
qed

lemma stale_stamps_gone:
  assumes "map_ok s"
  shows "set (marker_stamps s) \<inter> set (layer_stamps (redraw ns s)) = {}"
proof (rule map_okE [OF assms])
  fix a m assume am: "mapRef s = Some a" "maps s = [(a, m)]" "a \<le> lastId s"
    "stamps_ok (lastId s) (layers m)"
  have ms: "marker_stamps s = map fst (filter (\<lambda>(i, l). isMarker l) (layers m))"
    using am by (simp add: marker_stamps_def current_map_def)
  have ls: "layer_stamps (redraw ns s) = map fst (others (layers m) @ drawn ns s)"
    using am by (simp add: layer_stamps_def current_map_def redraw_def)
  have d: "distinct (map fst (layers m))" and b: "\<forall>p \<in> set (layers m). fst p \<le> lastId s"
    using am(4) by (auto simp: stamps_ok_def list_all_iff)
  {
    fix j assume j1: "j \<in> set (marker_stamps s)" and j2: "j \<in> set (layer_stamps (redraw ns s))"
    from j1 ms obtain l where l: "(j, l) \<in> set (layers m)" "isMarker l" by auto
    from j2 ls have "j \<in> fst ` set (others (layers m)) \<or> j \<in> fst ` set (drawn ns s)" by auto
    then have False
    proof
      assume "j \<in> fst ` set (others (layers m))"
      then obtain l' where l': "(j, l') \<in> set (layers m)" "\<not> isMarker l'"
        by (auto simp: others_def)
      from eq_key_imp_eq_value [OF d l(1) l'(1)] l(2) l'(2) show False by simp
    next
      assume "j \<in> fst ` set (drawn ns s)"
      then have "Suc (lastId s) \<le> j" by (auto simp: drawn_def in_set_enumerate_eq)
      moreover from b l(1) have "j \<le> lastId s" by auto
      ultimately show False by simp
    qed
  }
  then show ?thesis by auto
qed

lemma sublist_popup:
  "sublist (tmpl (tags_name obj)) (popupContent ns obj)"
  "sublist (ns (lat obj)) (popupContent ns obj)"
  "sublist (ns (lon obj)) (popupContent ns obj)"
proof -
  show "sublist (tmpl (tags_name obj)) (popupContent ns obj)"
    unfolding popupContent_def by (rule sublist_appendI)
  have "sublist (ns (lat obj)) ((''<div><b>Name: '' @ tmpl (tags_name obj) @ ''</b> <br/> <b>latitude: '')
      @ ns (lat obj) @ (''</b> <br/> <b>longitude: '' @ ns (lon obj) @ ''</b></div>''))"
    by (rule sublist_appendI)
  then show "sublist (ns (lat obj)) (popupContent ns obj)"
    by (simp add: popupContent_def)
  have "sublist (ns (lon obj)) ((''<div><b>Name: '' @ tmpl (tags_name obj) @ ''</b> <br/> <b>latitude: ''
      @ ns (lat obj) @ ''</b> <br/> <b>longitude: '') @ ns (lon obj) @ ''</b></div>'')"
    by (rule sublist_appendI)
  then show "sublist (ns (lon obj)) (popupContent ns obj)"
    by (simp add: popupContent_def)
qed

lemma dispatch_result:
  assumes "wf s" and "icon_ok (s\<lparr>queryResult := d\<rparr>)"
  shows "dispatch ns [SetQueryResult d] s = Inr (settle_result ns d s)"
proof -
  from assms(1) have ok: "map_ok s" and mt: "microtasks s = []" by (simp_all add: wf_def)
  have "drain ns (settle_result ns d s) = Inr (settle_result ns d s)"
    by (rule drain_idle) (simp_all add: map_ok_settle ok mt)
  then show ?thesis
    by (simp add: dispatch_def commit_result_eq [OF ok assms(2)] and_then_def)
qed

lemma step_Settle:
  assumes "wf s" and "i < length (pending s)"
  shows "step ns (Settle i out) s =
     Inr (case out of
            Body els \<Rightarrow>
              settle_result ns els (s\<lparr>pending := take i (pending s) @ drop (Suc i) (pending s)\<rparr>)
          | Rejected e \<Rightarrow>
              settle_result ns (Some [])
                (s\<lparr>pending := take i (pending s) @ drop (Suc i) (pending s),
                   console := console s @ [(''Error fetching '' @ pending s ! i @ '' data:'', e)]\<rparr>))"
proof -
  from assms(2) have "pending s \<noteq> []" by auto
  with assms(1) have ic: "amenityIcons (queryBy s) \<noteq> None"
    by (auto simp: wf_def type_ok_def)
  show ?thesis
  proof (cases out)
    case (Rejected e)
    let ?s2 = "s\<lparr>pending := take i (pending s) @ drop (Suc i) (pending s),
                   console := console s @ [(''Error fetching '' @ pending s ! i @ '' data:'', e)]\<rparr>"
    have "wf ?s2" using assms(1) ic by (simp add: wf_def type_ok_def)
    moreover have "icon_ok (?s2\<lparr>queryResult := Some []\<rparr>)"
      by (simp add: icon_ok_def result_list_def)
    ultimately have "dispatch ns [SetQueryResult (Some [])] ?s2 = Inr (settle_result ns (Some []) ?s2)"
      by (rule dispatch_result)
    then show ?thesis
      using assms(2) by (simp add: step_def Rejected fetchQueryDetail_resume_def Let_def)
  next
    case (Body els)
    let ?s2 = "s\<lparr>pending := take i (pending s) @ drop (Suc i) (pending s)\<rparr>"
    have "wf ?s2" using assms(1) ic by (simp add: wf_def type_ok_def)
    moreover have "icon_ok (?s2\<lparr>queryResult := els\<rparr>)"
      using ic by (simp add: icon_ok_def)
    ultimately have "dispatch ns [SetQueryResult els] ?s2 = Inr (settle_result ns els ?s2)"
      by (rule dispatch_result)
    then show ?thesis
      using assms(2) by (simp add: step_def Body fetchQueryDetail_resume_def Let_def)
  qed
qed

lemma shown_settle_list:
  "map_ok s \<Longrightarrow> shown (settle_result ns (Some xs) s) = map (marker_for ns (queryBy s)) xs"
  by (simp add: settle_result_def changes_def shown_redraw result_list_def)

lemma lastId_settle_empty: "lastId (settle_result ns (Some []) s) = lastId s"
  by (simp add: settle_result_def changes_def result_list_def)

lemma step_Select:
  assumes "wf s" and "q \<noteq> queryBy s" and "icon_ok (s\<lparr>queryBy := q\<rparr>)"
  shows "step ns (Select q) s = Inr (drained ns (redraw ns (remap ns (s\<lparr>queryBy := q\<rparr>))))"
proof -
  from assms(1) have ok: "map_ok s" and mt: "microtasks s = []" by (simp_all add: wf_def)
  have u: "fold apply_update (filter (changes s) [SetQueryBy q]) s = s\<lparr>queryBy := q\<rparr>"
    using assms(2) by (simp add: changes_def apply_update_def)
  have "committed ns [SetQueryBy q] s = redraw ns (remap ns (s\<lparr>queryBy := q\<rparr>))"
    using assms(2)
    by (simp add: committed_def changes_def touches_map_deps_def touches_marker_deps_def
        apply_update_def)
  moreover have "icon_ok (fold apply_update (filter (changes s) [SetQueryBy q]) s)"
    unfolding u by (rule assms(3))
  ultimately show ?thesis by (simp add: step_def dispatch_eq [OF ok mt])
qed

lemma isValid_iff:
  "isValid (validationSchema v) \<longleftrightarrow>
     name v \<noteq> [] \<and> latitude v \<noteq> None \<and> longitude v \<noteq> None \<and> type v \<noteq> []"
  by (auto simp: isValid_def validationSchema_def no_errors_def yup_string_required_def
      yup_number_required_def split: option.splits)

lemma valid_no_errors: "isValid (validationSchema v) \<Longrightarrow> validationSchema v = no_errors"
  by (simp add: isValid_def)

lemma step_Submit_fresh:
  assumes "wf s" and "isValid (validationSchema v)" and "changes s (SetInputFromForm (r, v))"
    and "icon_ok (s\<lparr>queryBy := type v\<rparr>)"
  shows "step ns (Submit r v) s =
     Inr (drained ns
       ((if type v \<noteq> queryBy s then redraw ns else id)
          (remap ns (s\<lparr>errors := no_errors, inputFromForm := Some (r, v), queryBy := type v\<rparr>))))"
proof -
  let ?s1 = "s\<lparr>errors := validationSchema v\<rparr>"
  from assms(1) have ok: "map_ok ?s1" and mt: "microtasks ?s1 = []" by (simp_all add: wf_def)
  have qr: "queryResult (fold apply_update (filter (changes ?s1) (onSubmit (r, v))) ?s1)
      = queryResult s"
    by (simp add: onSubmit_def changes_def apply_update_def split: option.splits)
  have ic: "icon_ok (fold apply_update (filter (changes ?s1) (onSubmit (r, v))) ?s1)"
    using assms(4) unfolding icon_ok_def queryBy_onSubmit qr by simp
  have ch: "changes ?s1 (SetInputFromForm (r, v))"
    using assms(3) by (simp add: changes_def)
  have q: "changes ?s1 (SetQueryBy (type v)) = (type v \<noteq> queryBy s)"
    by (simp add: changes_def)
  have "committed ns (onSubmit (r, v)) ?s1 =
      (if type v \<noteq> queryBy s then redraw ns else id)
          (remap ns (s\<lparr>errors := no_errors, inputFromForm := Some (r, v), queryBy := type v\<rparr>))"
    using ch q valid_no_errors [OF assms(2)]
    by (cases "type v = queryBy s")
       (simp_all add: committed_def onSubmit_def touches_map_deps_def touches_marker_deps_def
        apply_update_def)
  then show ?thesis
    using assms(2) by (simp add: step_def Let_def dispatch_eq [OF ok mt ic])
qed

lemmas exec_defs = step_def dispatch_def commit_def drain_def and_then_def when_do_def
  changes_def apply_update_def touches_map_deps_def touches_marker_deps_def
  mapEffect_def mapEffect_cleanup_def map_remove_def createMap_def addTo_def addLayer_def
  set_layers_def
  fetchQueryDetail_def fetchQueryDetail_resume_def markerEffect_def addMarker_def bindPopup_def
  removeLayer_def isMarker_def onSubmit_def isValid_def validationSchema_def no_errors_def
  yup_string_required_def yup_number_required_def Let_def tileLayer_def

lemma mount_initial: "mount ns initial = Inr mounted"
  by (simp add: mount_def initial_def mounted_def exec_defs)

lemma wf_mounted: "wf mounted"
  by (simp add: wf_def map_ok_def mounted_def stamps_ok_def type_ok_def result_list_def)

lemma wf_reachable:
  assumes "list_all from_page evs"
  shows "\<exists>s0 s. mount ns initial = Inr s0 \<and> run ns evs s0 = Inr s \<and> wf s"
  using run_wf [OF wf_mounted assms] by (simp add: mount_initial)

lemma url_X:
  "overpass_url ns X_values q =
     ''https://overpass-api.de/api/interpreter?data=[out:json];node(around:5000,''
       @ ns (287 / 10) @ '','' @ ns (771 / 10) @ '')[amenity='' @ q @ ''];out;''"
  by (simp add: overpass_url_def X_values_def tmpl_field_def)

lemma step_Submit_valid:
  assumes "wf s" and "isValid (validationSchema v)" and "icon_ok (s\<lparr>queryBy := type v\<rparr>)"
  shows "step ns (Submit r v) s =
     Inr (drained ns (committed ns (onSubmit (r, v)) (s\<lparr>errors := no_errors\<rparr>)))"
proof -
  let ?s1 = "s\<lparr>errors := validationSchema v\<rparr>"
  from assms(1) have ok: "map_ok ?s1" and mt: "microtasks ?s1 = []" by (simp_all add: wf_def)
  have qr: "queryResult (fold apply_update (filter (changes ?s1) (onSubmit (r, v))) ?s1)
      = queryResult s"
    by (simp add: onSubmit_def changes_def apply_update_def split: option.splits)
  have ic: "icon_ok (fold apply_update (filter (changes ?s1) (onSubmit (r, v))) ?s1)"
    using assms(3) unfolding icon_ok_def queryBy_onSubmit qr by simp
  have "step ns (Submit r v) s = Inr (drained ns (committed ns (onSubmit (r, v)) ?s1))"
    using assms(2) by (simp add: step_def Let_def dispatch_eq [OF ok mt ic])
  then show ?thesis
    unfolding valid_no_errors [OF assms(2)] .
qed

lemma step_Submit_again:
  assumes "wf s" and "isValid (validationSchema v)"
    and "\<not> changes s (SetInputFromForm (r, v))" and "queryBy s = type v"
  shows "step ns (Submit r v) s = Inr (s\<lparr>errors := no_errors\<rparr>)"
proof -
  from assms(1) have mt: "microtasks s = []" and ic: "icon_ok s"
    by (simp_all add: wf_def type_ok_icon_ok)
  have i: "icon_ok (s\<lparr>queryBy := type v\<rparr>)"
    using ic by (simp add: icon_ok_def assms(4) [symmetric])
  have "committed ns (onSubmit (r, v)) (s\<lparr>errors := no_errors\<rparr>) = s\<lparr>errors := no_errors\<rparr>"
    using assms(3,4) by (simp add: committed_def onSubmit_def changes_def)
  then show ?thesis
    using mt by (simp add: step_Submit_valid [OF assms(1,2) i] drained_idle)
qed

lemma step_Submit_retype:
  assumes "wf s" and "isValid (validationSchema v)"
    and "\<not> changes s (SetInputFromForm (r, v))" and "queryBy s \<noteq> type v"
    and "icon_ok (s\<lparr>queryBy := type v\<rparr>)"
  shows "step ns (Submit r v) s =
     Inr (drained ns (redraw ns (remap ns (s\<lparr>errors := no_errors, queryBy := type v\<rparr>))))"
proof -
  have "committed ns (onSubmit (r, v)) (s\<lparr>errors := no_errors\<rparr>) =
      redraw ns (remap ns (s\<lparr>errors := no_errors, queryBy := type v\<rparr>))"
    using assms(3,4)
    by (simp add: committed_def onSubmit_def changes_def touches_map_deps_def
        touches_marker_deps_def apply_update_def)
  then show ?thesis
    by (simp add: step_Submit_valid [OF assms(1,2,5)])
qed

lemma dispatch_recreates:
  assumes "wf s" and "list_ex touches_map_deps (filter (changes s) us)"
    and "icon_ok (fold apply_update (filter (changes s) us) s)"
  shows "\<exists>s'. dispatch ns us s = Inr s'
           \<and> inputFromForm s' = inputFromForm (fold apply_update (filter (changes s) us) s)
           \<and> recreated s s'
                (case inputFromForm (fold apply_update (filter (changes s) us) s) of
                   Some (r, v) \<Rightarrow> (latitude v, longitude v)
                 | None \<Rightarrow> default_center)"
proof -
  from assms(1) have ok: "map_ok s" and mt: "microtasks s = []" by (simp_all add: wf_def)
  obtain a m where am: "mapRef s = Some a" "maps s = [(a, m)]" "a \<le> lastId s"
    using ok by (rule map_okE)
  let ?ch = "filter (changes s) us"
  let ?s1 = "fold apply_update ?ch s"
  define c where "c = committed ns us s"
  have ne: "?ch \<noteq> []" using assms(2) by (cases "?ch") simp_all
  have c: "c = (if list_ex touches_marker_deps ?ch then redraw ns else id) (remap ns ?s1)"
    using ne assms(2) by (simp add: c_def committed_def Let_def)
  have l1: "lastId ?s1 = lastId s"
    by (simp_all add: fold_apply_update_frame)
  have f: "mapRef c = Some (Suc (lastId s))" "inputFromForm c = inputFromForm ?s1"
    "map fst (maps c) = [Suc (lastId s)]"
    "map (\<lambda>(b, m). center m) (maps c) = [center (new_map ?s1)]"
    by (simp_all add: c l1)
  have cen: "center (new_map ?s1) = (case inputFromForm ?s1 of
                         Some (r, v) \<Rightarrow> (latitude v, longitude v)
                       | None \<Rightarrow> default_center)"
    by (simp add: new_map_def)
  have z: "\<And>xs :: (nat \<times> lmap) list. map (\<lambda>(b, m). (Some b, center m)) xs =
      zip (map Some (map fst xs)) (map (\<lambda>(b, m). center m) xs)"
    by (induct_tac xs) auto
  have "recreated s (drained ns c) (case inputFromForm ?s1 of
                         Some (r, v) \<Rightarrow> (latitude v, longitude v)
                       | None \<Rightarrow> default_center)"
    using am f cen by (simp add: recreated_def z)
  then show ?thesis
    using f by (simp add: dispatch_eq [OF ok mt assms(3)] c_def [symmetric])
qed

lemma recreated_errors [simp]: "recreated (s\<lparr>errors := e\<rparr>) s' c = recreated s s' c"
  by (simp add: recreated_def)

lemma stale_reached:
  "run show_num [Submit 7 X_values, Settle 0 (Body (Some [hospital_node])), Select ''school'']
     mounted = Inr stale"
  by (simp add: mounted_def X_values_def exec_defs stale_def marker_for_def L_icon_def
      amenityIcons_def overpass_url_def result_list_def)

lemma wf_stale: "wf stale"
  by (simp add: wf_def map_ok_def stale_def stamps_ok_def type_ok_def amenityIcons_def)

lemma shown_stale: "shown stale = [marker_for show_num ''school'' hospital_node]"
  by (simp add: shown_def current_map_def stale_def markers_of_def tileLayer_def)

lemma overwritten_reached:
  "run show_num
     [Submit 7 X_values, Select ''school'', Settle 1 (Body (Some [school_node])),
      Settle 0 (Body (Some [hospital_node]))] mounted = Inr overwritten"
  by (simp add: mounted_def X_values_def exec_defs overwritten_def marker_for_def L_icon_def
      amenityIcons_def overpass_url_def result_list_def)

lemma shown_overwritten: "shown overwritten = [marker_for show_num ''school'' hospital_node]"
  by (simp add: shown_def current_map_def overwritten_def markers_of_def tileLayer_def)

lemma nodes_differ:
  "marker_for show_num ''school'' hospital_node \<noteq> marker_for show_num ''school'' school_node"
  by (simp add: marker_for_def hospital_node_def school_node_def)

lemma submitted_reached: "run show_num [Submit 7 X_values] mounted = Inr submitted"
  by (simp add: mounted_def X_values_def exec_defs submitted_def L_icon_def
      amenityIcons_def overpass_url_def result_list_def)

lemma wf_submitted: "wf submitted"
  by (simp add: wf_def map_ok_def submitted_def stamps_ok_def type_ok_def amenityIcons_def)

lemma submitted_again: "step show_num (Submit 7 X_values) submitted = Inr submitted"
  by (simp add: X_values_def exec_defs submitted_def)

lemma url_demo:
  "overpass_url show_num X_values q =
     ''https://overpass-api.de/api/interpreter?data=[out:json];node(around:5000,28.7,77.1)[amenity=''
       @ q @ ''];out;''"
  by (simp add: url_X show_num_def)

lemma listing_reached:
  "run show_num [Submit 7 X_values, Settle 0 (Body (Some [hospital_node, school_node]))]
     mounted = Inr listing"
  by (simp add: mounted_def X_values_def exec_defs listing_def marker_for_def L_icon_def
      amenityIcons_def overpass_url_def result_list_def)

lemma wf_listing: "wf listing"
  by (simp add: wf_def map_ok_def listing_def stamps_ok_def type_ok_def amenityIcons_def)

section \<open>The claims\<close>

text \<open>
  C1 (as amended). Whenever the marker effect runs it first removes every marker layer of the map
  and then adds one marker per element of the stored result \<^verbatim>\<open>queryResult\<close>: after it the
  markers on the map are exactly those of the stored result, in order, drawn with the icon of the
  selected amenity type, and no layer that was a marker before is still on the map. In
  particular, when a request settles with a list, the markers shown afterwards are exactly those
  of that list. The stored result is the one of the request that settled last, whatever type and
  position that request was sent for.
\<close>

theorem C1_render_replaces_markers:
  assumes "wf s"
  shows "(\<exists>s'. markerEffect ns s = Inr s'
            \<and> shown s' = map (marker_for ns (queryBy s)) (result_list (queryResult s))
            \<and> set (marker_stamps s) \<inter> set (layer_stamps s') = {}
            \<and> queryBy s' = queryBy s \<and> queryResult s' = queryResult s)
       \<and> (i < length (pending s) \<longrightarrow>
            (\<exists>s'. step ns (Settle i (Body (Some xs))) s = Inr s'
               \<and> queryResult s' = Some xs \<and> queryBy s' = queryBy s
               \<and> shown s' = map (marker_for ns (queryBy s)) xs
               \<and> set (marker_stamps s) \<inter> set (layer_stamps s') = {}))"
proof -
  from assms have ok: "map_ok s" and ic: "icon_ok s" by (simp_all add: wf_def type_ok_icon_ok)
  have A: "\<exists>s'. markerEffect ns s = Inr s'
            \<and> shown s' = map (marker_for ns (queryBy s)) (result_list (queryResult s))
            \<and> set (marker_stamps s) \<inter> set (layer_stamps s') = {}
            \<and> queryBy s' = queryBy s \<and> queryResult s' = queryResult s"
    by (simp add: markerEffect_redraw [OF ok ic] shown_redraw [OF ok] stale_stamps_gone [OF ok])
  have B: "\<exists>s'. step ns (Settle i (Body (Some xs))) s = Inr s'
               \<and> queryResult s' = Some xs \<and> queryBy s' = queryBy s
               \<and> shown s' = map (marker_for ns (queryBy s)) xs
               \<and> set (marker_stamps s) \<inter> set (layer_stamps s') = {}"
    if "i < length (pending s)"
  proof -
    define s3 where "s3 = s\<lparr>pending := take i (pending s) @ drop (Suc i) (pending s),
       queryResult := Some xs\<rparr>"
    have ok3: "map_ok s3" using ok by (simp add: s3_def)
    have st: "step ns (Settle i (Body (Some xs))) s = Inr (redraw ns s3)"
      by (simp add: step_Settle [OF assms that] settle_result_def changes_def s3_def)
    have ms: "marker_stamps s3 = marker_stamps s"
      by (simp add: marker_stamps_def current_map_def s3_def split: option.splits)
    have q: "queryBy s3 = queryBy s" "queryResult s3 = Some xs" by (simp_all add: s3_def)
    show ?thesis
      unfolding st using stale_stamps_gone [OF ok3, of ns] shown_redraw [OF ok3, of ns] ms q
      by (simp add: result_list_def)
  qed
  from A B show ?thesis by blast
qed

text \<open>
  An instance of C1 as amended: in the state \<open>stale\<close> the map shows one marker, with stamp 8;
  the marker effect replaces it, and so does the answer \<open>[school_node]\<close> to the request in flight.
\<close>

theorem C1_render_replaces_markers_witness:
  "wf stale \<and> 0 < length (pending stale)
   \<and> marker_stamps stale = [8]
   \<and> (\<exists>s'. markerEffect show_num stale = Inr s'
         \<and> shown s' = [marker_for show_num ''school'' hospital_node]
         \<and> set (marker_stamps stale) \<inter> set (layer_stamps s') = {})
   \<and> (\<exists>s'. step show_num (Settle 0 (Body (Some [school_node]))) stale = Inr s'
         \<and> queryResult s' = Some [school_node]
         \<and> shown s' = [marker_for show_num ''school'' school_node]
         \<and> set (marker_stamps stale) \<inter> set (layer_stamps s') = {})"
proof -
  have p: "0 < length (pending stale)" "queryBy stale = ''school''"
    "result_list (queryResult stale) = [hospital_node]"
    by (simp_all add: stale_def result_list_def)
  have m: "marker_stamps stale = [8]"
    by (simp add: marker_stamps_def current_map_def stale_def isMarker_def tileLayer_def)
  from C1_render_replaces_markers [OF wf_stale, of show_num 0 "[school_node]"] p
  have "(\<exists>s'. markerEffect show_num stale = Inr s'
         \<and> shown s' = [marker_for show_num ''school'' hospital_node]
         \<and> set (marker_stamps stale) \<inter> set (layer_stamps s') = {})
   \<and> (\<exists>s'. step show_num (Settle 0 (Body (Some [school_node]))) stale = Inr s'
         \<and> queryResult s' = Some [school_node]
         \<and> shown s' = [marker_for show_num ''school'' school_node]
         \<and> set (marker_stamps stale) \<inter> set (layer_stamps s') = {})"
    by auto
  with wf_stale p(1) m show ?thesis by blast
qed

text \<open>
  C1 as stated fails. After a submission for hospitals has been answered with \<open>[hospital_node]\<close>
  and the select is changed to schools, the render cycle completes with the hospital's marker on
  the new map while the request for schools is still in flight (state \<open>stale\<close>). And when the
  select is changed before the first answer arrives and the answer for schools arrives before
  the answer for hospitals, the late answer for hospitals replaces the markers of the schools for
  good (state \<open>overwritten\<close>): nothing is in flight any more, the selected type is the school,
  and the map shows the hospital, not the result \<open>[school_node]\<close> of the most recent request.
\<close>

theorem C1_stale_markers_counterexample:
  "mount show_num initial = Inr mounted
   \<and> run show_num
        [Submit 7 X_values, Settle 0 (Body (Some [hospital_node])), Select ''school'']
        mounted = Inr stale
   \<and> queryBy stale = ''school''
   \<and> pending stale = [''school'']
   \<and> shown stale = [marker_for show_num ''school'' hospital_node]
   \<and> run show_num
        [Submit 7 X_values, Select ''school'', Settle 1 (Body (Some [school_node])),
         Settle 0 (Body (Some [hospital_node]))]
        mounted = Inr overwritten
   \<and> queryBy overwritten = ''school''
   \<and> pending overwritten = []
   \<and> shown overwritten = [marker_for show_num ''school'' hospital_node]
   \<and> shown overwritten \<noteq> [marker_for show_num ''school'' school_node]"
proof -
  have c: "queryBy stale = ''school''" "pending stale = [''school'']"
    "queryBy overwritten = ''school''" "pending overwritten = []"
    by (simp_all add: stale_def overwritten_def)
  from mount_initial stale_reached overwritten_reached shown_stale shown_overwritten nodes_differ c
  show ?thesis by simp
qed

text \<open>
  C2. When the request or the parsing of its answer fails, \<^verbatim>\<open>fetchQueryDetail\<close> writes one
  line to the console and returns the empty list. The render that follows leaves no marker on
  the map and adds none; the messages of the form are unchanged, no request is sent, the settled
  request leaves the requests in flight and nothing throws.
\<close>

theorem C2_failed_fetch_logs_and_draws_nothing:
  assumes "wf s" and "i < length (pending s)"
  shows "fetchQueryDetail_resume q (Rejected e) s =
           (Some [], s\<lparr>console := console s @ [(''Error fetching '' @ q @ '' data:'', e)]\<rparr>)
       \<and> (\<exists>s'. step ns (Settle i (Rejected e)) s = Inr s'
             \<and> queryResult s' = Some []
             \<and> shown s' = []
             \<and> lastId s' = lastId s
             \<and> console s' = console s @ [(''Error fetching '' @ pending s ! i @ '' data:'', e)]
             \<and> requests s' = requests s
             \<and> pending s' = take i (pending s) @ drop (Suc i) (pending s)
             \<and> errors s' = errors s
             \<and> wf s')"
proof -
  from assms(1) have ok: "map_ok s" and mt: "microtasks s = []" by (simp_all add: wf_def)
  from assms(2) have "pending s \<noteq> []" by auto
  with assms(1) have ic: "amenityIcons (queryBy s) \<noteq> None"
    by (auto simp: wf_def type_ok_def)
  define s2 where "s2 = s\<lparr>pending := take i (pending s) @ drop (Suc i) (pending s),
                   console := console s @ [(''Error fetching '' @ pending s ! i @ '' data:'', e)]\<rparr>"
  have ok2: "map_ok s2" using ok by (simp add: s2_def)
  have w: "wf (settle_result ns (Some []) s2)"
    using ok2 mt ic by (simp add: wf_def map_ok_settle type_ok_def) (simp add: s2_def)
  have st: "step ns (Settle i (Rejected e)) s = Inr (settle_result ns (Some []) s2)"
    by (simp add: step_Settle [OF assms] s2_def)
  have f: "console s2 = console s @ [(''Error fetching '' @ pending s ! i @ '' data:'', e)]"
    "requests s2 = requests s" "pending s2 = take i (pending s) @ drop (Suc i) (pending s)"
    "errors s2 = errors s" "lastId s2 = lastId s"
    by (simp_all add: s2_def)
  have "\<exists>s'. step ns (Settle i (Rejected e)) s = Inr s'
             \<and> queryResult s' = Some []
             \<and> shown s' = []
             \<and> lastId s' = lastId s
             \<and> console s' = console s @ [(''Error fetching '' @ pending s ! i @ '' data:'', e)]
             \<and> requests s' = requests s
             \<and> pending s' = take i (pending s) @ drop (Suc i) (pending s)
             \<and> errors s' = errors s
             \<and> wf s'"
    unfolding st using w f by (simp add: shown_settle_list [OF ok2] lastId_settle_empty)
  then show ?thesis
    by (simp add: fetchQueryDetail_resume_def)
qed

text \<open>An instance of C2: the request for schools of the state \<open>stale\<close> fails.\<close>

theorem C2_failed_fetch_logs_and_draws_nothing_witness:
  "wf stale \<and> 0 < length (pending stale)
   \<and> (\<exists>s'. step show_num (Settle 0 (Rejected NetworkError)) stale = Inr s'
         \<and> queryResult s' = Some [] \<and> shown s' = []
         \<and> console s' = [(''Error fetching school data:'', NetworkError)]
         \<and> requests s' = requests stale \<and> pending s' = [] \<and> errors s' = errors stale)"
proof -
  have p: "0 < length (pending stale)" "pending stale = [''school'']" "console stale = []"
    by (simp_all add: stale_def)
  from C2_failed_fetch_logs_and_draws_nothing [OF wf_stale p(1), of "''school''" NetworkError show_num]
  obtain s' where "step show_num (Settle 0 (Rejected NetworkError)) stale = Inr s'"
    "queryResult s' = Some []" "shown s' = []"
    "console s' = console stale @ [(''Error fetching '' @ pending stale ! 0 @ '' data:'', NetworkError)]"
    "requests s' = requests stale" "pending s' = take 0 (pending stale) @ drop (Suc 0) (pending stale)"
    "errors s' = errors stale"
    by blast
  then have "\<exists>s'. step show_num (Settle 0 (Rejected NetworkError)) stale = Inr s'
         \<and> queryResult s' = Some [] \<and> shown s' = []
         \<and> console s' = [(''Error fetching school data:'', NetworkError)]
         \<and> requests s' = requests stale \<and> pending s' = [] \<and> errors s' = errors stale"
    by (simp add: p)
  with wf_stale p(1) show ?thesis by blast
qed

text \<open>
  C3. For a result list of length \<open>N\<close> the marker effect does not throw, leaves exactly \<open>N\<close>
  markers on the map and stamps exactly \<open>N\<close> new layers. The \<open>i\<close>-th marker stands at the
  coordinates of the \<open>i\<close>-th element, carries the icon of the selected amenity type, and its
  popup text is the template of the source filled with the value of \<^verbatim>\<open>obj?.tags?.name\<close>
  (the name tag of that element, and the text \<^verbatim>\<open>undefined\<close> when the element has no tags or
  no name tag) and with the element's latitude and longitude. So the popup contains the name
  tag of the element whenever it has one, and its latitude and longitude.
\<close>

theorem C3_render_adds_one_marker_per_element:
  assumes "wf s" and "queryResult s = Some xs"
  shows "\<exists>s'. markerEffect ns s = Inr s'
           \<and> length (shown s') = length xs
           \<and> lastId s' = lastId s + length xs
           \<and> (\<forall>i < length xs.
                 latlng (shown s' ! i) = (lat (xs ! i), lon (xs ! i))
               \<and> marker_icon (shown s' ! i) =
                   \<lparr>iconUrl = amenityIcons (queryBy s), iconSize = (32, 32),
                    iconAnchor = (16, 32), popupAnchor = (0, - 32)\<rparr>
               \<and> popup (shown s' ! i) =
                   Some (''<div><b>Name: ''
                     @ (case tags (xs ! i) of
                          None \<Rightarrow> ''undefined''
                        | Some t \<Rightarrow> (case t ''name'' of None \<Rightarrow> ''undefined'' | Some n \<Rightarrow> n))
                     @ ''</b> <br/> <b>latitude: '' @ ns (lat (xs ! i))
                     @ ''</b> <br/> <b>longitude: '' @ ns (lon (xs ! i)) @ ''</b></div>'')
               \<and> (\<forall>t n p. tags (xs ! i) = Some t \<and> t ''name'' = Some n
                      \<and> popup (shown s' ! i) = Some p \<longrightarrow> sublist n p)
               \<and> (\<forall>p. popup (shown s' ! i) = Some p \<longrightarrow>
                      sublist (ns (lat (xs ! i))) p \<and> sublist (ns (lon (xs ! i))) p))"
proof -
  from assms(1) have ok: "map_ok s" and ic: "icon_ok s"
    by (simp_all add: wf_def type_ok_icon_ok)
  have sh: "shown (redraw ns s) = map (marker_for ns (queryBy s)) xs"
    using ok assms(2) by (simp add: shown_redraw result_list_def)
  have nm: "sublist n (popupContent ns obj)" if "tags obj = Some t" "t ''name'' = Some n"
    for obj t n
  proof -
    from that have "tmpl (tags_name obj) = n" by (simp add: tmpl_def tags_name_def)
    with sublist_popup(1) [of obj ns] show ?thesis by simp
  qed
  have pc: "popupContent ns obj =
      ''<div><b>Name: ''
        @ (case tags obj of
             None \<Rightarrow> ''undefined''
           | Some t \<Rightarrow> (case t ''name'' of None \<Rightarrow> ''undefined'' | Some n \<Rightarrow> n))
        @ ''</b> <br/> <b>latitude: '' @ ns (lat obj)
        @ ''</b> <br/> <b>longitude: '' @ ns (lon obj) @ ''</b></div>''" for obj
    by (simp add: popupContent_def tmpl_def tags_name_def split: option.splits)
  have each: "latlng (marker_for ns (queryBy s) obj) = (lat obj, lon obj)
      \<and> marker_icon (marker_for ns (queryBy s) obj) =
          \<lparr>iconUrl = amenityIcons (queryBy s), iconSize = (32, 32),
           iconAnchor = (16, 32), popupAnchor = (0, - 32)\<rparr>
      \<and> popup (marker_for ns (queryBy s) obj) = Some (popupContent ns obj)" for obj
    by (simp add: marker_for_def L_icon_def)
  have "length (shown (redraw ns s)) = length xs
      \<and> lastId (redraw ns s) = lastId s + length xs
      \<and> (\<forall>i < length xs.
            latlng (shown (redraw ns s) ! i) = (lat (xs ! i), lon (xs ! i))
          \<and> marker_icon (shown (redraw ns s) ! i) =
              \<lparr>iconUrl = amenityIcons (queryBy s), iconSize = (32, 32),
               iconAnchor = (16, 32), popupAnchor = (0, - 32)\<rparr>
          \<and> popup (shown (redraw ns s) ! i) = Some (popupContent ns (xs ! i))
          \<and> (\<forall>t n p. tags (xs ! i) = Some t \<and> t ''name'' = Some n
                 \<and> popup (shown (redraw ns s) ! i) = Some p \<longrightarrow> sublist n p)
          \<and> (\<forall>p. popup (shown (redraw ns s) ! i) = Some p \<longrightarrow>
                 sublist (ns (lat (xs ! i))) p \<and> sublist (ns (lon (xs ! i))) p))"
    using assms(2) each nm sublist_popup(2,3)
    by (auto simp: sh result_list_def)
  then show ?thesis
    unfolding markerEffect_redraw [OF ok ic] pc by blast
qed

text \<open>
  An instance of C3: the two elements of the state \<open>listing\<close>. The first has the name tag
  \<^verbatim>\<open>City Clinic\<close>, the second has no tags.
\<close>

theorem C3_render_adds_one_marker_per_element_witness:
  "wf listing \<and> queryResult listing = Some [hospital_node, school_node]
   \<and> tags hospital_node = Some [''name'' \<mapsto> ''City Clinic'']
   \<and> tags school_node = None
   \<and> (\<exists>s'. markerEffect show_num listing = Inr s'
         \<and> length (shown s') = 2 \<and> lastId s' = lastId listing + 2
         \<and> latlng (shown s' ! 0) = (1, 2)
         \<and> iconUrl (marker_icon (shown s' ! 0)) = Some ''./assets/hospital.svg''
         \<and> popup (shown s' ! 0) =
             Some ''<div><b>Name: City Clinic</b> <br/> <b>latitude: 1</b> <br/> <b>longitude: 2</b></div>''
         \<and> sublist ''City Clinic'' (the (popup (shown s' ! 0)))
         \<and> sublist (show_num 1) (the (popup (shown s' ! 0)))
         \<and> sublist (show_num 2) (the (popup (shown s' ! 0)))
         \<and> latlng (shown s' ! 1) = (3, 4)
         \<and> popup (shown s' ! 1) =
             Some ''<div><b>Name: undefined</b> <br/> <b>latitude: 3</b> <br/> <b>longitude: 4</b></div>'')"
proof -
  have q: "queryResult listing = Some [hospital_node, school_node]" "queryBy listing = ''hospital''"
    by (simp_all add: listing_def)
  have t: "tags hospital_node = Some [''name'' \<mapsto> ''City Clinic'']" "tags school_node = None"
    "lat hospital_node = 1" "lon hospital_node = 2" "lat school_node = 3" "lon school_node = 4"
    by (simp_all add: hospital_node_def school_node_def)
  have n: "show_num 1 = ''1''" "show_num 2 = ''2''" "show_num 3 = ''3''" "show_num 4 = ''4''"
    by (simp_all add: show_num_def)
  have ic: "amenityIcons ''hospital'' = Some ''./assets/hospital.svg''"
    by (simp add: amenityIcons_def hospitalIcon_def)
  from C3_render_adds_one_marker_per_element [OF wf_listing q(1), of show_num]
  obtain s' where s': "markerEffect show_num listing = Inr s'"
    "length (shown s') = length [hospital_node, school_node]"
    "lastId s' = lastId listing + length [hospital_node, school_node]"
    and all: "\<forall>i < length [hospital_node, school_node].
                 latlng (shown s' ! i) = (lat ([hospital_node, school_node] ! i), lon ([hospital_node, school_node] ! i))
               \<and> marker_icon (shown s' ! i) =
                   \<lparr>iconUrl = amenityIcons (queryBy listing), iconSize = (32, 32),
                    iconAnchor = (16, 32), popupAnchor = (0, - 32)\<rparr>
               \<and> popup (shown s' ! i) =
                   Some (''<div><b>Name: ''
                     @ (case tags ([hospital_node, school_node] ! i) of
                          None \<Rightarrow> ''undefined''
                        | Some t \<Rightarrow> (case t ''name'' of None \<Rightarrow> ''undefined'' | Some n \<Rightarrow> n))
                     @ ''</b> <br/> <b>latitude: '' @ show_num (lat ([hospital_node, school_node] ! i))
                     @ ''</b> <br/> <b>longitude: '' @ show_num (lon ([hospital_node, school_node] ! i)) @ ''</b></div>'')
               \<and> (\<forall>t n p. tags ([hospital_node, school_node] ! i) = Some t \<and> t ''name'' = Some n
                      \<and> popup (shown s' ! i) = Some p \<longrightarrow> sublist n p)
               \<and> (\<forall>p. popup (shown s' ! i) = Some p \<longrightarrow>
                      sublist (show_num (lat ([hospital_node, school_node] ! i))) p
                      \<and> sublist (show_num (lon ([hospital_node, school_node] ! i))) p)"
    by blast
  from all have a0: "latlng (shown s' ! 0) = (lat hospital_node, lon hospital_node)"
    "marker_icon (shown s' ! 0) =
                   \<lparr>iconUrl = amenityIcons (queryBy listing), iconSize = (32, 32),
                    iconAnchor = (16, 32), popupAnchor = (0, - 32)\<rparr>"
    "popup (shown s' ! 0) =
                   Some (''<div><b>Name: ''
                     @ (case tags hospital_node of
                          None \<Rightarrow> ''undefined''
                        | Some t \<Rightarrow> (case t ''name'' of None \<Rightarrow> ''undefined'' | Some n \<Rightarrow> n))
                     @ ''</b> <br/> <b>latitude: '' @ show_num (lat hospital_node)
                     @ ''</b> <br/> <b>longitude: '' @ show_num (lon hospital_node) @ ''</b></div>'')"
    "\<forall>t n p. tags hospital_node = Some t \<and> t ''name'' = Some n
                      \<and> popup (shown s' ! 0) = Some p \<longrightarrow> sublist n p"
    "\<forall>p. popup (shown s' ! 0) = Some p \<longrightarrow>
                      sublist (show_num (lat hospital_node)) p
                      \<and> sublist (show_num (lon hospital_node)) p"
    by auto
  from all have a1: "latlng (shown s' ! 1) = (lat school_node, lon school_node)"
    "popup (shown s' ! 1) =
                   Some (''<div><b>Name: ''
                     @ (case tags school_node of
                          None \<Rightarrow> ''undefined''
                        | Some t \<Rightarrow> (case t ''name'' of None \<Rightarrow> ''undefined'' | Some n \<Rightarrow> n))
                     @ ''</b> <br/> <b>latitude: '' @ show_num (lat school_node)
                     @ ''</b> <br/> <b>longitude: '' @ show_num (lon school_node) @ ''</b></div>'')"
    by auto
  have p0: "popup (shown s' ! 0) =
      Some ''<div><b>Name: City Clinic</b> <br/> <b>latitude: 1</b> <br/> <b>longitude: 2</b></div>''"
    using a0(3) by (simp add: t n)
  have p1: "popup (shown s' ! 1) =
      Some ''<div><b>Name: undefined</b> <br/> <b>latitude: 3</b> <br/> <b>longitude: 4</b></div>''"
    using a1(2) by (simp add: t n)
  obtain p where p: "popup (shown s' ! 0) = Some p" using p0 by blast
  have nm: "[''name'' \<mapsto> ''City Clinic''] ''name'' = Some ''City Clinic''" by simp
  have sl: "sublist ''City Clinic'' p" using a0(4) t(1) nm p by blast
  have sn: "sublist (show_num 1) p" "sublist (show_num 2) p" using a0(5) p t by auto
  have th: "the (popup (shown s' ! 0)) = p" by (simp only: p option.sel)
  have b0: "latlng (shown s' ! 0) = (1, 2)" using a0(1) by (simp add: t)
  have b1: "latlng (shown s' ! 1) = (3, 4)" using a1(1) by (simp add: t)
  have b2: "iconUrl (marker_icon (shown s' ! 0)) = Some ''./assets/hospital.svg''"
    by (simp add: a0(2) q(2) ic)
  have b3: "length (shown s') = 2" "lastId s' = lastId listing + 2"
    using s'(2,3) by simp_all
  have "\<exists>s'. markerEffect show_num listing = Inr s'
         \<and> length (shown s') = 2 \<and> lastId s' = lastId listing + 2
         \<and> latlng (shown s' ! 0) = (1, 2)
         \<and> iconUrl (marker_icon (shown s' ! 0)) = Some ''./assets/hospital.svg''
         \<and> popup (shown s' ! 0) =
             Some ''<div><b>Name: City Clinic</b> <br/> <b>latitude: 1</b> <br/> <b>longitude: 2</b></div>''
         \<and> sublist ''City Clinic'' (the (popup (shown s' ! 0)))
         \<and> sublist (show_num 1) (the (popup (shown s' ! 0)))
         \<and> sublist (show_num 2) (the (popup (shown s' ! 0)))
         \<and> latlng (shown s' ! 1) = (3, 4)
         \<and> popup (shown s' ! 1) =
             Some ''<div><b>Name: undefined</b> <br/> <b>latitude: 3</b> <br/> <b>longitude: 4</b></div>''"
    unfolding th [symmetric]
    by (intro exI [of _ s'] conjI s'(1) b3 b0 b2 p0 p1 b1 sl [folded th] sn [folded th])
  then show ?thesis
    by (intro conjI wf_listing q(1) t(1,2))
qed

text \<open>
  C4. For every submission that the page can make (the type field of the form holds its empty
  initial value or the value of one of the four options), the schema accepts the values exactly
  when the name is not empty, latitude and longitude are present, and the type is one of
  \<^verbatim>\<open>restaurant\<close>, \<^verbatim>\<open>hospital\<close>, \<^verbatim>\<open>school\<close> and \<^verbatim>\<open>place_of_worship\<close>. A submission with an
  empty name is rejected with the message \<^verbatim>\<open>Name is required\<close>, and a rejected submission
  changes nothing but the messages of the form: no request is sent.
\<close>

theorem C4_validation_accepts_iff:
  assumes "from_page (Submit r v)"
  shows "(isValid (validationSchema v) \<longleftrightarrow>
            name v \<noteq> [] \<and> latitude v \<noteq> None \<and> longitude v \<noteq> None
            \<and> type v \<in> {''restaurant'', ''hospital'', ''school'', ''place_of_worship''})
       \<and> (name v = [] \<longrightarrow>
            \<not> isValid (validationSchema v)
            \<and> name_error (validationSchema v) = Some ''Name is required'')
       \<and> (\<not> isValid (validationSchema v) \<longrightarrow>
            step ns (Submit r v) s = Inr (s\<lparr>errors := validationSchema v\<rparr>)
            \<and> requests (s\<lparr>errors := validationSchema v\<rparr>) = requests s
            \<and> pending (s\<lparr>errors := validationSchema v\<rparr>) = pending s)"
proof -
  have o: "set option_values = {''restaurant'', ''hospital'', ''school'', ''place_of_worship''}"
    by (auto simp: option_values_def typeOptions_def)
  from assms have t: "type v = [] \<or> type v \<in> set option_values"
    by (simp add: from_page_def)
  have a: "[] \<notin> set option_values" by (simp add: option_values_def typeOptions_def)
  have c: "name v = [] \<Longrightarrow> name_error (validationSchema v) = Some ''Name is required''"
    by (simp add: validationSchema_def yup_string_required_def)
  have "isValid (validationSchema v) \<longleftrightarrow>
            name v \<noteq> [] \<and> latitude v \<noteq> None \<and> longitude v \<noteq> None
            \<and> type v \<in> set option_values"
    using t a by (auto simp: isValid_iff)
  then show ?thesis
    unfolding o using c by (auto simp: step_def Let_def)
qed

text \<open>An instance of C4: a form without a name, and the form \<open>X_values\<close>.\<close>

theorem C4_validation_accepts_iff_witness:
  "from_page (Submit 7 unnamed_form) \<and> name unnamed_form = []
   \<and> \<not> isValid (validationSchema unnamed_form)
   \<and> name_error (validationSchema unnamed_form) = Some ''Name is required''
   \<and> step show_num (Submit 7 unnamed_form) mounted = Inr (mounted\<lparr>errors := validationSchema unnamed_form\<rparr>)
   \<and> requests (mounted\<lparr>errors := validationSchema unnamed_form\<rparr>) = requests mounted
   \<and> from_page (Submit 7 X_values)
   \<and> isValid (validationSchema X_values)"
proof -
  have a: "name unnamed_form = []" "from_page (Submit 7 unnamed_form)"
    "from_page (Submit 7 X_values)"
    by (simp_all add: unnamed_form_def X_values_def from_page_def option_values_def
        typeOptions_def)
  have b: "name X_values \<noteq> [] \<and> latitude X_values \<noteq> None \<and> longitude X_values \<noteq> None
      \<and> type X_values \<in> {''restaurant'', ''hospital'', ''school'', ''place_of_worship''}"
    by (simp add: X_values_def)
  from C4_validation_accepts_iff [OF a(2), of show_num mounted] a(1)
  have c: "\<not> isValid (validationSchema unnamed_form)"
    "name_error (validationSchema unnamed_form) = Some ''Name is required''"
    "step show_num (Submit 7 unnamed_form) mounted = Inr (mounted\<lparr>errors := validationSchema unnamed_form\<rparr>)"
    "requests (mounted\<lparr>errors := validationSchema unnamed_form\<rparr>) = requests mounted"
    by simp_all
  from C4_validation_accepts_iff [OF a(3)] b have d: "isValid (validationSchema X_values)"
    by blast
  show ?thesis
    by (intro conjI a c d)
qed

text \<open>
  C5. Without a submitted form \<^verbatim>\<open>fetchQueryDetail\<close> sends no request and returns at once.
  With one it sends exactly one GET request, whose URL holds the radius 5000, the submitted
  latitude and longitude and the amenity type it was called with; the map effect calls it with
  the type that is selected at that moment.
\<close>

theorem C5_fetch_sends_one_request_or_none:
  "(inputFromForm s = None \<longrightarrow> fetchQueryDetail ns q s = (Resolved None, s))
   \<and> (inputFromForm s = Some (r, v) \<and> latitude v = Some la \<and> longitude v = Some lo \<longrightarrow>
        (\<exists>s'. fetchQueryDetail ns q s = (Pending, s')
           \<and> requests s' = requests s @
               [GET (''https://overpass-api.de/api/interpreter?data=[out:json];node(around:5000,''
                  @ ns la @ '','' @ ns lo @ '')[amenity='' @ q @ ''];out;'')]))
   \<and> (maps s = [] \<and> inputFromForm s = Some (r, v) \<longrightarrow>
        (\<exists>s'. mapEffect ns s = Inr s'
           \<and> requests s' = requests s @ [GET (overpass_url ns v (queryBy s))]))
   \<and> (maps s = [] \<and> inputFromForm s = None \<longrightarrow>
        (\<exists>s'. mapEffect ns s = Inr s' \<and> requests s' = requests s))"
  by (simp add: fetchQueryDetail_def overpass_url_def tmpl_field_def mapEffect_eq)

text \<open>An instance of C5: the initial state, and the state \<open>stale\<close>.\<close>

theorem C5_fetch_sends_one_request_or_none_witness:
  "inputFromForm initial = None \<and> maps initial = []
   \<and> fetchQueryDetail show_num ''hospital'' initial = (Resolved None, initial)
   \<and> (\<exists>s'. mapEffect show_num initial = Inr s' \<and> requests s' = [])
   \<and> (\<exists>s'. fetchQueryDetail show_num ''school'' stale = (Pending, s')
         \<and> requests s' = requests stale @
             [GET ''https://overpass-api.de/api/interpreter?data=[out:json];node(around:5000,28.7,77.1)[amenity=school];out;''])
   \<and> (\<exists>s'. mapEffect show_num (stale\<lparr>maps := []\<rparr>) = Inr s'
         \<and> requests s' = requests stale @ [GET (overpass_url show_num X_values ''school'')])"
proof -
  have p: "inputFromForm initial = None" "maps initial = []" "requests initial = []"
    by (simp_all add: initial_def)
  have q: "inputFromForm stale = Some (7, X_values)" "latitude X_values = Some (287 / 10)"
    "longitude X_values = Some (771 / 10)" "queryBy stale = ''school''"
    by (simp_all add: stale_def X_values_def)
  have n: "show_num (287 / 10) = ''28.7''" "show_num (771 / 10) = ''77.1''"
    by (simp_all add: show_num_def)
  from C5_fetch_sends_one_request_or_none [of initial show_num "''hospital''"] p
  have a: "fetchQueryDetail show_num ''hospital'' initial = (Resolved None, initial)"
    "\<exists>s'. mapEffect show_num initial = Inr s' \<and> requests s' = []"
    by auto
  from C5_fetch_sends_one_request_or_none [where s = stale and r = 7 and v = X_values and la = "287 / 10" and lo = "771 / 10"
      and ns = show_num and q = "''school''"] q
  have b: "\<exists>s'. fetchQueryDetail show_num ''school'' stale = (Pending, s')
         \<and> requests s' = requests stale @
             [GET ''https://overpass-api.de/api/interpreter?data=[out:json];node(around:5000,28.7,77.1)[amenity=school];out;'']"
    by (simp add: n)
  from C5_fetch_sends_one_request_or_none [where s = "stale\<lparr>maps := []\<rparr>" and r = 7 and v = X_values and ns = show_num] q
  have c: "\<exists>s'. mapEffect show_num (stale\<lparr>maps := []\<rparr>) = Inr s'
         \<and> requests s' = requests stale @ [GET (overpass_url show_num X_values ''school'')]"
    by simp
  from p(1,2) a b c show ?thesis by blast
qed

text \<open>
  C6. After a submission, changing the select to another of its options sets \<^verbatim>\<open>queryBy\<close>
  and leaves the stored form values, the stored result and the messages of the form as they
  were; the request it triggers is the one for the stored coordinates and the new type.
\<close>

theorem C6_select_changes_type_only:
  assumes "wf s" and "inputFromForm s = Some (r, v)" and "q \<noteq> queryBy s"
    and "q \<in> set option_values"
  shows "\<exists>s'. step ns (Select q) s = Inr s'
           \<and> queryBy s' = q
           \<and> inputFromForm s' = Some (r, v)
           \<and> queryResult s' = queryResult s
           \<and> errors s' = errors s
           \<and> requests s' = requests s @ [GET (overpass_url ns v q)]
           \<and> pending s' = pending s @ [q]"
proof -
  from assms(1) have mt: "microtasks s = []" by (simp add: wf_def)
  have m: "microtasks (redraw ns (remap ns (s\<lparr>queryBy := q\<rparr>))) = []"
    using assms(2) mt by (simp add: remap_requests)
  have ic: "icon_ok (s\<lparr>queryBy := q\<rparr>)"
    using icon_of_option [OF assms(4)] by (simp add: icon_ok_def)
  show ?thesis
    using assms(2)
    by (simp add: step_Select [OF assms(1,3) ic] drained_idle [OF m] remap_requests)
qed

text \<open>An instance of C6: the select of the state \<open>stale\<close> is changed to restaurants.\<close>

theorem C6_select_changes_type_only_witness:
  "wf stale \<and> inputFromForm stale = Some (7, X_values) \<and> ''restaurant'' \<noteq> queryBy stale
   \<and> ''restaurant'' \<in> set option_values
   \<and> (\<exists>s'. step show_num (Select ''restaurant'') stale = Inr s'
         \<and> queryBy s' = ''restaurant''
         \<and> inputFromForm s' = Some (7, X_values)
         \<and> queryResult s' = queryResult stale
         \<and> requests s' = requests stale @
             [GET ''https://overpass-api.de/api/interpreter?data=[out:json];node(around:5000,28.7,77.1)[amenity=restaurant];out;''])"
proof -
  have q: "inputFromForm stale = Some (7, X_values)" "''restaurant'' \<noteq> queryBy stale"
    "''restaurant'' \<in> set option_values"
    by (simp_all add: stale_def option_values_def typeOptions_def)
  have u: "overpass_url show_num X_values ''restaurant'' =
     ''https://overpass-api.de/api/interpreter?data=[out:json];node(around:5000,28.7,77.1)[amenity=restaurant];out;''"
    by (simp add: url_X show_num_def)
  from C6_select_changes_type_only [OF wf_stale q, of show_num]
  have "\<exists>s'. step show_num (Select ''restaurant'') stale = Inr s'
         \<and> queryBy s' = ''restaurant''
         \<and> inputFromForm s' = Some (7, X_values)
         \<and> queryResult s' = queryResult stale
         \<and> requests s' = requests stale @
             [GET ''https://overpass-api.de/api/interpreter?data=[out:json];node(around:5000,28.7,77.1)[amenity=restaurant];out;'']"
    unfolding u by blast
  with wf_stale q show ?thesis by blast
qed

text \<open>
  C7 (as amended). Submitting \<^verbatim>\<open>{name: "X", latitude: 28.7, longitude: 77.1, type: "hospital"}\<close>
  sends exactly one request, for latitude 28.7, longitude 77.1 and the type hospital, whenever
  the values object is not the one stored by the previous submission or the selected type is
  not hospital: both state updates of \<^verbatim>\<open>onSubmit\<close> belong to one commit, so the map effect
  runs once. When the values object is the stored one and hospital is selected, neither update
  changes the state: the submission sends no request and changes nothing but the messages of the
  form.
\<close>

theorem C7_submit_triggers_one_fetch:
  assumes "wf s"
  shows "(changes s (SetInputFromForm (r, X_values))
            \<or> (inputFromForm s = Some (r, X_values) \<and> queryBy s \<noteq> ''hospital'') \<longrightarrow>
            (\<exists>s'. step ns (Submit r X_values) s = Inr s'
               \<and> requests s' = requests s @
                   [GET (''https://overpass-api.de/api/interpreter?data=[out:json];node(around:5000,''
                      @ ns (287 / 10) @ '','' @ ns (771 / 10) @ '')[amenity=hospital];out;'')]
               \<and> pending s' = pending s @ [''hospital'']
               \<and> inputFromForm s' = Some (r, X_values)
               \<and> queryBy s' = ''hospital''))
       \<and> (inputFromForm s = Some (r, X_values) \<and> queryBy s = ''hospital'' \<longrightarrow>
            step ns (Submit r X_values) s = Inr (s\<lparr>errors := no_errors\<rparr>)
            \<and> requests (s\<lparr>errors := no_errors\<rparr>) = requests s
            \<and> pending (s\<lparr>errors := no_errors\<rparr>) = pending s)"
proof -
  have v: "isValid (validationSchema X_values)"
    by (simp add: isValid_iff X_values_def)
  have t: "type X_values = ''hospital''" by (simp add: X_values_def)
  from assms have mt: "microtasks s = []" by (simp add: wf_def)
  have ic: "icon_ok (s\<lparr>queryBy := type X_values\<rparr>)"
    by (simp add: icon_ok_def t amenityIcons_def)
  let ?url = "GET (''https://overpass-api.de/api/interpreter?data=[out:json];node(around:5000,''
                      @ ns (287 / 10) @ '','' @ ns (771 / 10) @ '')[amenity=hospital];out;'')"
  have A: "\<exists>s'. step ns (Submit r X_values) s = Inr s'
               \<and> requests s' = requests s @ [?url]
               \<and> pending s' = pending s @ [''hospital'']
               \<and> inputFromForm s' = Some (r, X_values)
               \<and> queryBy s' = ''hospital''"
    if "changes s (SetInputFromForm (r, X_values))"
  proof -
    define c where "c = (if type X_values \<noteq> queryBy s then redraw ns else id)
          (remap ns (s\<lparr>errors := no_errors, inputFromForm := Some (r, X_values),
             queryBy := type X_values\<rparr>))"
    have st: "step ns (Submit r X_values) s = Inr (drained ns c)"
      unfolding c_def by (rule step_Submit_fresh [OF assms v that ic])
    have m: "microtasks c = []" using mt by (simp add: c_def remap_requests)
    have f: "requests c = requests s @ [GET (overpass_url ns X_values ''hospital'')]"
      "pending c = pending s @ [''hospital'']" "inputFromForm c = Some (r, X_values)"
      "queryBy c = ''hospital''"
      by (simp_all add: c_def remap_requests t)
    show ?thesis
      unfolding st drained_idle [OF m] using f by (simp add: url_X)
  qed
  have B: "\<exists>s'. step ns (Submit r X_values) s = Inr s'
               \<and> requests s' = requests s @ [?url]
               \<and> pending s' = pending s @ [''hospital'']
               \<and> inputFromForm s' = Some (r, X_values)
               \<and> queryBy s' = ''hospital''"
    if i: "inputFromForm s = Some (r, X_values)" and q: "queryBy s \<noteq> ''hospital''"
  proof -
    have nc: "\<not> changes s (SetInputFromForm (r, X_values))"
      using i by (simp add: changes_def)
    define c where "c = redraw ns (remap ns (s\<lparr>errors := no_errors, queryBy := type X_values\<rparr>))"
    have st: "step ns (Submit r X_values) s = Inr (drained ns c)"
      unfolding c_def by (rule step_Submit_retype [OF assms v nc _ ic]) (simp add: q t)
    have m: "microtasks c = []" using mt i by (simp add: c_def remap_requests)
    have f: "requests c = requests s @ [GET (overpass_url ns X_values ''hospital'')]"
      "pending c = pending s @ [''hospital'']" "inputFromForm c = Some (r, X_values)"
      "queryBy c = ''hospital''"
      using i by (simp_all add: c_def remap_requests t)
    show ?thesis
      unfolding st drained_idle [OF m] using f by (simp add: url_X)
  qed
  have C: "step ns (Submit r X_values) s = Inr (s\<lparr>errors := no_errors\<rparr>)"
    if i: "inputFromForm s = Some (r, X_values)" and q: "queryBy s = ''hospital''"
  proof -
    have nc: "\<not> changes s (SetInputFromForm (r, X_values))"
      using i by (simp add: changes_def)
    show ?thesis by (rule step_Submit_again [OF assms v nc]) (simp add: q t)
  qed
  from A B C show ?thesis by auto
qed

text \<open>
  Instances of C7 as amended: the submission right after the first render, the submission of
  the stored values object in the state \<open>stale\<close>, where schools are selected, and the submission
  of the stored values object in the state \<open>submitted\<close>, where hospitals are selected.
\<close>

theorem C7_submit_triggers_one_fetch_witness:
  "mount show_num initial = Inr mounted \<and> wf mounted
   \<and> changes mounted (SetInputFromForm (7, X_values))
   \<and> (\<exists>s'. step show_num (Submit 7 X_values) mounted = Inr s'
         \<and> requests s' =
             [GET ''https://overpass-api.de/api/interpreter?data=[out:json];node(around:5000,28.7,77.1)[amenity=hospital];out;'']
         \<and> pending s' = [''hospital'']
         \<and> queryBy s' = ''hospital'')
   \<and> wf stale \<and> inputFromForm stale = Some (7, X_values) \<and> queryBy stale = ''school''
   \<and> (\<exists>s'. step show_num (Submit 7 X_values) stale = Inr s'
         \<and> requests s' = requests stale @
             [GET ''https://overpass-api.de/api/interpreter?data=[out:json];node(around:5000,28.7,77.1)[amenity=hospital];out;'']
         \<and> queryBy s' = ''hospital'')
   \<and> wf submitted \<and> inputFromForm submitted = Some (7, X_values)
   \<and> queryBy submitted = ''hospital''
   \<and> step show_num (Submit 7 X_values) submitted = Inr (submitted\<lparr>errors := no_errors\<rparr>)
   \<and> requests (submitted\<lparr>errors := no_errors\<rparr>) = requests submitted"
proof -
  have c: "changes mounted (SetInputFromForm (7, X_values))"
    by (simp add: changes_def mounted_def)
  have r: "requests mounted = []" "pending mounted = []" by (simp_all add: mounted_def)
  have n: "show_num (287 / 10) = ''28.7''" "show_num (771 / 10) = ''77.1''"
    by (simp_all add: show_num_def)
  have st: "inputFromForm stale = Some (7, X_values)" "queryBy stale = ''school''"
    "queryBy stale \<noteq> ''hospital''"
    by (simp_all add: stale_def)
  have su: "inputFromForm submitted = Some (7, X_values)" "queryBy submitted = ''hospital''"
    by (simp_all add: submitted_def)
  note t1 = C7_submit_triggers_one_fetch [OF wf_mounted, of 7 show_num]
  note t2 = C7_submit_triggers_one_fetch [OF wf_stale, of 7 show_num]
  note t3 = C7_submit_triggers_one_fetch [OF wf_submitted, of 7 show_num]
  have A0: "\<exists>s'. step show_num (Submit 7 X_values) mounted = Inr s'
               \<and> requests s' = requests mounted @
                   [GET (''https://overpass-api.de/api/interpreter?data=[out:json];node(around:5000,''
                      @ show_num (287 / 10) @ '','' @ show_num (771 / 10) @ '')[amenity=hospital];out;'')]
               \<and> pending s' = pending mounted @ [''hospital'']
               \<and> inputFromForm s' = Some (7, X_values)
               \<and> queryBy s' = ''hospital''"
    by (rule mp [OF conjunct1 [OF t1]]) (rule disjI1, rule c)
  then obtain s1 where s1: "step show_num (Submit 7 X_values) mounted = Inr s1"
    "requests s1 = requests mounted @
                   [GET (''https://overpass-api.de/api/interpreter?data=[out:json];node(around:5000,''
                      @ show_num (287 / 10) @ '','' @ show_num (771 / 10) @ '')[amenity=hospital];out;'')]"
    "pending s1 = pending mounted @ [''hospital'']" "queryBy s1 = ''hospital''"
    by (elim exE conjE)
  have A: "\<exists>s'. step show_num (Submit 7 X_values) mounted = Inr s'
         \<and> requests s' =
             [GET ''https://overpass-api.de/api/interpreter?data=[out:json];node(around:5000,28.7,77.1)[amenity=hospital];out;'']
         \<and> pending s' = [''hospital'']
         \<and> queryBy s' = ''hospital''"
    using s1 by (intro exI [of _ s1]) (simp add: r n)
  have B0: "\<exists>s'. step show_num (Submit 7 X_values) stale = Inr s'
               \<and> requests s' = requests stale @
                   [GET (''https://overpass-api.de/api/interpreter?data=[out:json];node(around:5000,''
                      @ show_num (287 / 10) @ '','' @ show_num (771 / 10) @ '')[amenity=hospital];out;'')]
               \<and> pending s' = pending stale @ [''hospital'']
               \<and> inputFromForm s' = Some (7, X_values)
               \<and> queryBy s' = ''hospital''"
    by (rule mp [OF conjunct1 [OF t2]]) (rule disjI2, rule conjI, rule st(1), rule st(3))
  then obtain s2 where s2: "step show_num (Submit 7 X_values) stale = Inr s2"
    "requests s2 = requests stale @
                   [GET (''https://overpass-api.de/api/interpreter?data=[out:json];node(around:5000,''
                      @ show_num (287 / 10) @ '','' @ show_num (771 / 10) @ '')[amenity=hospital];out;'')]"
    "queryBy s2 = ''hospital''"
    by (elim exE conjE)
  have B: "\<exists>s'. step show_num (Submit 7 X_values) stale = Inr s'
         \<and> requests s' = requests stale @
             [GET ''https://overpass-api.de/api/interpreter?data=[out:json];node(around:5000,28.7,77.1)[amenity=hospital];out;'']
         \<and> queryBy s' = ''hospital''"
    using s2 by (intro exI [of _ s2]) (simp add: n)
  have C0: "step show_num (Submit 7 X_values) submitted = Inr (submitted\<lparr>errors := no_errors\<rparr>)
            \<and> requests (submitted\<lparr>errors := no_errors\<rparr>) = requests submitted
            \<and> pending (submitted\<lparr>errors := no_errors\<rparr>) = pending submitted"
    by (rule mp [OF conjunct2 [OF t3]]) (rule conjI, rule su(1), rule su(2))
  from C0 have C: "step show_num (Submit 7 X_values) submitted = Inr (submitted\<lparr>errors := no_errors\<rparr>)"
    "requests (submitted\<lparr>errors := no_errors\<rparr>) = requests submitted"
    by simp_all
  show ?thesis
    by (intro conjI mount_initial wf_mounted c A wf_stale st(1,2) B wf_submitted su C)
qed

text \<open>
  C7 as stated fails. The first submission after the first render sends one request and leads
  to the state \<open>submitted\<close>. Submitting the unchanged form again, with the same values object,
  leaves that state as it is: the second submission sends no request, and after both
  submissions one request has been sent, not two.
\<close>

theorem C7_submit_again_counterexample:
  "run show_num [Submit 7 X_values] mounted = Inr submitted
   \<and> requests submitted =
       [GET ''https://overpass-api.de/api/interpreter?data=[out:json];node(around:5000,28.7,77.1)[amenity=hospital];out;'']
   \<and> step show_num (Submit 7 X_values) submitted = Inr submitted
   \<and> run show_num [Submit 7 X_values, Submit 7 X_values] mounted = Inr submitted"
proof -
  have r: "requests submitted =
       [GET ''https://overpass-api.de/api/interpreter?data=[out:json];node(around:5000,28.7,77.1)[amenity=hospital];out;'']"
    by (simp add: submitted_def url_demo)
  have one: "step show_num (Submit 7 X_values) mounted = Inr submitted"
    using submitted_reached by (simp add: and_then_def split: sum.splits)
  have two: "run show_num [Submit 7 X_values, Submit 7 X_values] mounted = Inr submitted"
    by (simp add: one and_then_def submitted_again)
  from submitted_reached r submitted_again two show ?thesis by simp
qed

text \<open>
  C8. When the select changes the type, the map the ref held is removed and a new one is created,
  centred on the coordinates of the stored submission when there is one and on the default
  centre otherwise. When a valid submission brings a new values object, the map is removed and
  the new one is centred on the latitude and longitude of the submitted values, which are the
  stored ones afterwards. When a valid submission brings the stored values object and another
  type, the map is removed and the new one is centred on the stored coordinates. The cleanup
  leaves the container without a map before the new one is created; \<^verbatim>\<open>createMap\<close> throws
  while a map is bound to the container, and where it succeeds no map was bound before and
  exactly one is bound after; after every sequence of events of the page exactly one map is
  bound to the container.
\<close>

theorem C8_map_recreated_on_change:
  assumes "wf s"
  shows "(q \<noteq> queryBy s \<and> q \<in> set option_values \<longrightarrow>
            (\<exists>s'. step ns (Select q) s = Inr s'
               \<and> inputFromForm s' = inputFromForm s
               \<and> recreated s s'
                    (case inputFromForm s of
                       Some (r0, v0) \<Rightarrow> (latitude v0, longitude v0)
                     | None \<Rightarrow> default_center)))
       \<and> (isValid (validationSchema v) \<and> type v \<in> set option_values
            \<and> changes s (SetInputFromForm (r, v)) \<longrightarrow>
            (\<exists>s'. step ns (Submit r v) s = Inr s'
               \<and> inputFromForm s' = Some (r, v)
               \<and> recreated s s' (latitude v, longitude v)))
       \<and> (isValid (validationSchema v) \<and> type v \<in> set option_values
            \<and> \<not> changes s (SetInputFromForm (r, v)) \<and> type v \<noteq> queryBy s \<longrightarrow>
            (\<exists>s'. step ns (Submit r v) s = Inr s'
               \<and> inputFromForm s' = inputFromForm s
               \<and> recreated s s'
                    (case inputFromForm s of
                       Some (r0, v0) \<Rightarrow> (latitude v0, longitude v0)
                     | None \<Rightarrow> default_center)))
       \<and> (\<exists>s2. mapEffect_cleanup s = Inr s2 \<and> maps s2 = [])
       \<and> createMap s = Inl (Error ''Map container is already initialized.'')
       \<and> (createMap t = Inr (b, t') \<longrightarrow> maps t = [] \<and> length (maps t') = 1)
       \<and> (list_all from_page evs \<longrightarrow>
            (\<exists>s'. run ns evs s = Inr s' \<and> wf s' \<and> length (maps s') = 1))"
proof -
  from assms have ok: "map_ok s" by (simp add: wf_def)
  obtain a m where am: "mapRef s = Some a" "maps s = [(a, m)]"
    using ok by (rule map_okE)
  have A: "\<exists>s'. step ns (Select q) s = Inr s'
               \<and> inputFromForm s' = inputFromForm s
               \<and> recreated s s'
                    (case inputFromForm s of
                       Some (r0, v0) \<Rightarrow> (latitude v0, longitude v0)
                     | None \<Rightarrow> default_center)"
    if "q \<noteq> queryBy s" "q \<in> set option_values"
  proof -
    have u: "fold apply_update (filter (changes s) [SetQueryBy q]) s = s\<lparr>queryBy := q\<rparr>"
      using that(1) by (simp add: changes_def apply_update_def)
    have l: "list_ex touches_map_deps (filter (changes s) [SetQueryBy q])"
      using that(1) by (simp add: changes_def touches_map_deps_def)
    have i: "icon_ok (fold apply_update (filter (changes s) [SetQueryBy q]) s)"
      unfolding u using icon_of_option [OF that(2)] by (simp add: icon_ok_def)
    from dispatch_recreates [OF assms l i, of ns] show ?thesis
      unfolding u by (simp add: step_def)
  qed
  have S: "\<exists>s'. step ns (Submit r v) s = Inr s'
        \<and> inputFromForm s' = inputFromForm (fold apply_update
             (filter (changes (s\<lparr>errors := validationSchema v\<rparr>)) (onSubmit (r, v)))
             (s\<lparr>errors := validationSchema v\<rparr>))
        \<and> recreated s s'
             (case inputFromForm (fold apply_update
                (filter (changes (s\<lparr>errors := validationSchema v\<rparr>)) (onSubmit (r, v)))
                (s\<lparr>errors := validationSchema v\<rparr>)) of
                Some (r0, v0) \<Rightarrow> (latitude v0, longitude v0)
              | None \<Rightarrow> default_center)"
    if "isValid (validationSchema v)" "type v \<in> set option_values"
      and "changes s (SetInputFromForm (r, v)) \<or> type v \<noteq> queryBy s"
  proof -
    let ?s1 = "s\<lparr>errors := validationSchema v\<rparr>"
    have w: "wf ?s1" using assms by (simp add: wf_def)
    have l: "list_ex touches_map_deps (filter (changes ?s1) (onSubmit (r, v)))"
      using that(3) by (auto simp: changes_def touches_map_deps_def onSubmit_def)
    have i: "icon_ok (fold apply_update (filter (changes ?s1) (onSubmit (r, v))) ?s1)"
      using icon_of_option [OF that(2)] unfolding icon_ok_def queryBy_onSubmit by simp
    from dispatch_recreates [OF w l i, of ns] show ?thesis
      using that(1) by (simp add: step_def Let_def)
  qed
  have B1: "\<exists>s'. step ns (Submit r v) s = Inr s'
               \<and> inputFromForm s' = Some (r, v)
               \<and> recreated s s' (latitude v, longitude v)"
    if "isValid (validationSchema v)" "type v \<in> set option_values"
      and c: "changes s (SetInputFromForm (r, v))"
  proof -
    have "inputFromForm (fold apply_update
             (filter (changes (s\<lparr>errors := validationSchema v\<rparr>)) (onSubmit (r, v)))
             (s\<lparr>errors := validationSchema v\<rparr>)) = Some (r, v)"
      using c by (simp add: onSubmit_def changes_def apply_update_def)
    with S [OF that(1,2)] c show ?thesis by simp
  qed
  have B2: "\<exists>s'. step ns (Submit r v) s = Inr s'
               \<and> inputFromForm s' = inputFromForm s
               \<and> recreated s s'
                    (case inputFromForm s of
                       Some (r0, v0) \<Rightarrow> (latitude v0, longitude v0)
                     | None \<Rightarrow> default_center)"
    if "isValid (validationSchema v)" "type v \<in> set option_values"
      and c: "\<not> changes s (SetInputFromForm (r, v))" and q: "type v \<noteq> queryBy s"
  proof -
    have "inputFromForm (fold apply_update
             (filter (changes (s\<lparr>errors := validationSchema v\<rparr>)) (onSubmit (r, v)))
             (s\<lparr>errors := validationSchema v\<rparr>)) = inputFromForm s"
      using c q by (simp add: onSubmit_def changes_def apply_update_def)
    with S [OF that(1,2)] q show ?thesis by simp
  qed
  have C: "\<exists>s2. mapEffect_cleanup s = Inr s2 \<and> maps s2 = []"
    using am by (simp add: cleanup_eq)
  have D: "createMap s = Inl (Error ''Map container is already initialized.'')"
    using am by (simp add: createMap_throws)
  have E: "\<exists>s'. run ns evs s = Inr s' \<and> wf s' \<and> length (maps s') = 1"
    if "list_all from_page evs"
  proof -
    from run_wf [OF assms that] obtain s' where s': "run ns evs s = Inr s'" "wf s'" by blast
    from s'(2) have "map_ok s'" by (simp add: wf_def)
    then obtain a' m' where "maps s' = [(a', m')]" by (rule map_okE)
    with s' show ?thesis by simp
  qed
  have F: "maps t = [] \<and> length (maps t') = 1" if "createMap t = Inr (b, t')"
  proof (cases "maps t = []")
    case True
    with that show ?thesis by (auto simp: createMap_eq)
  next
    case False
    with that show ?thesis by (simp add: createMap_throws)
  qed
  from A B1 B2 C D E F show ?thesis by blast
qed

text \<open>
  Instances of C8: in the state \<open>stale\<close>, whose map is centred on (28.7, 77.1), a change of the
  select and a submission of the stored values object centre the new map on (28.7, 77.1), and
  the submission of \<open>moved_form\<close> centres it on (3, 4); right after the first render a change of
  the select centres the new map on the default centre.
\<close>

theorem C8_map_recreated_on_change_witness:
  "wf stale \<and> ''restaurant'' \<noteq> queryBy stale \<and> ''restaurant'' \<in> set option_values
   \<and> inputFromForm stale = Some (7, X_values)
   \<and> isValid (validationSchema moved_form) \<and> type moved_form \<in> set option_values
   \<and> changes stale (SetInputFromForm (8, moved_form))
   \<and> isValid (validationSchema X_values) \<and> type X_values \<in> set option_values
   \<and> \<not> changes stale (SetInputFromForm (7, X_values)) \<and> type X_values \<noteq> queryBy stale
   \<and> list_all from_page [Settle 0 (Body None), Select ''restaurant'']
   \<and> (\<exists>s'. step show_num (Select ''restaurant'') stale = Inr s'
         \<and> inputFromForm s' = Some (7, X_values)
         \<and> recreated stale s' (Some (287 / 10), Some (771 / 10)))
   \<and> (\<exists>s'. step show_num (Submit 8 moved_form) stale = Inr s'
         \<and> inputFromForm s' = Some (8, moved_form)
         \<and> recreated stale s' (Some 3, Some 4))
   \<and> (\<exists>s'. step show_num (Submit 7 X_values) stale = Inr s'
         \<and> inputFromForm s' = Some (7, X_values)
         \<and> recreated stale s' (Some (287 / 10), Some (771 / 10)))
   \<and> (\<exists>s2. mapEffect_cleanup stale = Inr s2 \<and> maps s2 = [])
   \<and> createMap stale = Inl (Error ''Map container is already initialized.'')
   \<and> (\<exists>b t'. createMap (stale\<lparr>maps := []\<rparr>) = Inr (b, t') \<and> length (maps t') = 1)
   \<and> (\<exists>s'. run show_num [Settle 0 (Body None), Select ''restaurant''] stale = Inr s'
         \<and> length (maps s') = 1)
   \<and> wf mounted \<and> ''school'' \<noteq> queryBy mounted \<and> inputFromForm mounted = None
   \<and> (\<exists>s'. step show_num (Select ''school'') mounted = Inr s'
         \<and> recreated mounted s' (Some 28.7041, Some 77.1025))"
proof -
  have q: "''restaurant'' \<noteq> queryBy stale" "''restaurant'' \<in> set option_values"
    "inputFromForm stale = Some (7, X_values)"
    "type moved_form \<in> set option_values" "changes stale (SetInputFromForm (8, moved_form))"
    "type X_values \<in> set option_values" "\<not> changes stale (SetInputFromForm (7, X_values))"
    "type X_values \<noteq> queryBy stale"
    "list_all from_page [Settle 0 (Body None), Select ''restaurant'']"
    by (simp_all add: stale_def changes_def option_values_def typeOptions_def X_values_def
        moved_form_def from_page_def)
  have m: "''school'' \<noteq> queryBy mounted" "inputFromForm mounted = None"
    "''school'' \<in> set option_values"
    by (simp_all add: mounted_def option_values_def typeOptions_def)
  have v: "isValid (validationSchema moved_form)" "isValid (validationSchema X_values)"
    by (simp_all add: isValid_iff X_values_def moved_form_def)
  have l: "latitude X_values = Some (287 / 10)" "longitude X_values = Some (771 / 10)"
    "latitude moved_form = Some 3" "longitude moved_form = Some 4"
    by (simp_all add: X_values_def moved_form_def)
  obtain b t' where c: "createMap (stale\<lparr>maps := []\<rparr>) = Inr (b, t')"
    by (simp add: createMap_eq)
  note t1 = C8_map_recreated_on_change [OF wf_stale, of "''restaurant''" show_num moved_form 8
      "stale\<lparr>maps := []\<rparr>" b t' "[Settle 0 (Body None), Select ''restaurant'']"]
  note t2 = C8_map_recreated_on_change [OF wf_stale, of "''restaurant''" show_num X_values 7]
  note t3 = C8_map_recreated_on_change [OF wf_mounted, of "''school''" show_num]
  have A: "\<exists>s'. step show_num (Select ''restaurant'') stale = Inr s'
         \<and> inputFromForm s' = Some (7, X_values)
         \<and> recreated stale s' (Some (287 / 10), Some (771 / 10))"
    using mp [OF conjunct1 [OF t1] conjI [OF q(1) q(2)]] by (simp add: q(3) l)
  have B: "\<exists>s'. step show_num (Submit 8 moved_form) stale = Inr s'
         \<and> inputFromForm s' = Some (8, moved_form)
         \<and> recreated stale s' (Some 3, Some 4)"
    using mp [OF conjunct1 [OF conjunct2 [OF t1]] conjI [OF v(1) conjI [OF q(4) q(5)]]]
    by (simp add: l)
  have B': "\<exists>s'. step show_num (Submit 7 X_values) stale = Inr s'
         \<and> inputFromForm s' = Some (7, X_values)
         \<and> recreated stale s' (Some (287 / 10), Some (771 / 10))"
    using mp [OF conjunct1 [OF conjunct2 [OF conjunct2 [OF t2]]]
        conjI [OF v(2) conjI [OF q(6) conjI [OF q(7) q(8)]]]]
    by (simp add: q(3) l)
  note rest = conjunct2 [OF conjunct2 [OF conjunct2 [OF t1]]]
  have C: "\<exists>s2. mapEffect_cleanup stale = Inr s2 \<and> maps s2 = []"
    by (rule conjunct1 [OF rest])
  have D: "createMap stale = Inl (Error ''Map container is already initialized.'')"
    by (rule conjunct1 [OF conjunct2 [OF rest]])
  have F0: "maps (stale\<lparr>maps := []\<rparr>) = [] \<and> length (maps t') = 1"
    by (rule mp [OF conjunct1 [OF conjunct2 [OF conjunct2 [OF rest]]] c])
  have F: "\<exists>b t'. createMap (stale\<lparr>maps := []\<rparr>) = Inr (b, t') \<and> length (maps t') = 1"
    using c F0 by (intro exI [of _ b] exI [of _ t']) simp
  have E0: "\<exists>s'. run show_num [Settle 0 (Body None), Select ''restaurant''] stale = Inr s'
         \<and> wf s' \<and> length (maps s') = 1"
    by (rule mp [OF conjunct2 [OF conjunct2 [OF conjunct2 [OF rest]]] q(9)])
  then obtain s3 where s3: "run show_num [Settle 0 (Body None), Select ''restaurant''] stale = Inr s3"
    "length (maps s3) = 1" by (elim exE conjE)
  have E: "\<exists>s'. run show_num [Settle 0 (Body None), Select ''restaurant''] stale = Inr s'
         \<and> length (maps s') = 1"
    using s3 by (intro exI [of _ s3]) simp
  have G0: "\<exists>s'. step show_num (Select ''school'') mounted = Inr s'
         \<and> inputFromForm s' = inputFromForm mounted
         \<and> recreated mounted s'
              (case inputFromForm mounted of
                 Some (r0, v0) \<Rightarrow> (latitude v0, longitude v0)
               | None \<Rightarrow> default_center)"
    by (rule mp [OF conjunct1 [OF t3] conjI [OF m(1) m(3)]])
  then obtain s4 where s4: "step show_num (Select ''school'') mounted = Inr s4"
    "recreated mounted s4
              (case inputFromForm mounted of
                 Some (r0, v0) \<Rightarrow> (latitude v0, longitude v0)
               | None \<Rightarrow> default_center)" by (elim exE conjE)
  have G: "\<exists>s'. step show_num (Select ''school'') mounted = Inr s'
         \<and> recreated mounted s' (Some 28.7041, Some 77.1025)"
    using s4 by (intro exI [of _ s4]) (simp add: m(2) default_center_def)
  show ?thesis
    by (intro conjI wf_stale wf_mounted q v m(1,2) A B B' C D E F G)
qed

text \<open>
  C9. Called before any submission, and when the answer has no \<^verbatim>\<open>elements\<close>,
  \<^verbatim>\<open>fetchQueryDetail\<close> returns \<^verbatim>\<open>undefined\<close>. With \<^verbatim>\<open>undefined\<close> as the stored result the
  marker effect does not throw and leaves no marker on the map.
\<close>

theorem C9_undefined_result_draws_nothing:
  "(inputFromForm s = None \<longrightarrow> fetchQueryDetail ns q s = (Resolved None, s))
   \<and> fetchQueryDetail_resume q (Body None) s = (None, s)
   \<and> (wf s \<and> queryResult s = None \<longrightarrow>
        (\<exists>s'. markerEffect ns s = Inr s' \<and> shown s' = [] \<and> lastId s' = lastId s
           \<and> queryResult s' = None))"
proof -
  have "\<exists>s'. markerEffect ns s = Inr s' \<and> shown s' = [] \<and> lastId s' = lastId s
           \<and> queryResult s' = None" if "wf s" "queryResult s = None"
  proof -
    from that(1) have ok: "map_ok s" and ic: "icon_ok s"
      by (simp_all add: wf_def type_ok_icon_ok)
    show ?thesis
      using that(2)
      by (simp add: markerEffect_redraw [OF ok ic] shown_redraw [OF ok] result_list_def)
  qed
  then show ?thesis
    by (simp add: fetchQueryDetail_def fetchQueryDetail_resume_def)
qed

text \<open>An instance of C9: the state right after the first render.\<close>

theorem C9_undefined_result_draws_nothing_witness:
  "inputFromForm mounted = None \<and> wf mounted \<and> queryResult mounted = None
   \<and> fetchQueryDetail show_num [] mounted = (Resolved None, mounted)
   \<and> fetchQueryDetail_resume ''school'' (Body None) mounted = (None, mounted)
   \<and> (\<exists>s'. markerEffect show_num mounted = Inr s' \<and> shown s' = [] \<and> lastId s' = lastId mounted)"
proof -
  have p: "inputFromForm mounted = None" "queryResult mounted = None"
    by (simp_all add: mounted_def)
  from C9_undefined_result_draws_nothing [of mounted show_num "[]"]
    C9_undefined_result_draws_nothing [of mounted show_num "''school''"] p wf_mounted
  show ?thesis by auto
qed

text \<open>
  C10. An element without tags, or whose tags have no name, still gets its marker at its
  coordinates, and the popup of that marker reads \<^verbatim>\<open>undefined\<close> where the name would stand.
\<close>

theorem C10_nameless_element_still_gets_marker:
  assumes "wf s" and "queryResult s = Some xs" and "i < length xs"
    and "tags (xs ! i) = None \<or> (\<exists>t. tags (xs ! i) = Some t \<and> t ''name'' = None)"
  shows "\<exists>s'. markerEffect ns s = Inr s'
           \<and> length (shown s') = length xs
           \<and> latlng (shown s' ! i) = (lat (xs ! i), lon (xs ! i))
           \<and> popup (shown s' ! i) =
               Some (''<div><b>Name: undefined</b> <br/> <b>latitude: '' @ ns (lat (xs ! i))
                 @ ''</b> <br/> <b>longitude: '' @ ns (lon (xs ! i)) @ ''</b></div>'')"
proof -
  from assms(1) have ok: "map_ok s" and ic: "icon_ok s"
    by (simp_all add: wf_def type_ok_icon_ok)
  have sh: "shown (redraw ns s) = map (marker_for ns (queryBy s)) xs"
    using ok assms(2) by (simp add: shown_redraw result_list_def)
  have tn: "tags_name (xs ! i) = None"
    using assms(4) by (auto simp: tags_name_def)
  show ?thesis
    using assms(3) tn
    by (simp add: markerEffect_redraw [OF ok ic] sh marker_for_def popupContent_def tmpl_def)
qed

text \<open>An instance of C10: the second element of the state \<open>listing\<close> has no tags.\<close>

theorem C10_nameless_element_still_gets_marker_witness:
  "wf listing \<and> queryResult listing = Some [hospital_node, school_node] \<and> tags school_node = None
   \<and> (\<exists>s'. markerEffect show_num listing = Inr s'
         \<and> length (shown s') = 2
         \<and> latlng (shown s' ! 1) = (3, 4)
         \<and> popup (shown s' ! 1) =
             Some ''<div><b>Name: undefined</b> <br/> <b>latitude: 3</b> <br/> <b>longitude: 4</b></div>'')"
proof -
  have q: "queryResult listing = Some [hospital_node, school_node]"
    by (simp add: listing_def)
  have t: "tags school_node = None" by (simp add: school_node_def)
  have h: "tags ([hospital_node, school_node] ! 1) = None
      \<or> (\<exists>t. tags ([hospital_node, school_node] ! 1) = Some t \<and> t ''name'' = None)"
    by (simp add: t)
  have i: "1 < length [hospital_node, school_node]" by simp
  from C10_nameless_element_still_gets_marker [OF wf_listing q i h, of show_num]
  obtain s' where s': "markerEffect show_num listing = Inr s'"
    "length (shown s') = length [hospital_node, school_node]"
    "latlng (shown s' ! 1) = (lat ([hospital_node, school_node] ! 1), lon ([hospital_node, school_node] ! 1))"
    "popup (shown s' ! 1) =
               Some (''<div><b>Name: undefined</b> <br/> <b>latitude: ''
                 @ show_num (lat ([hospital_node, school_node] ! 1))
                 @ ''</b> <br/> <b>longitude: '' @ show_num (lon ([hospital_node, school_node] ! 1))
                 @ ''</b></div>'')"
    by blast
  have "markerEffect show_num listing = Inr s'
         \<and> length (shown s') = 2
         \<and> latlng (shown s' ! 1) = (3, 4)
         \<and> popup (shown s' ! 1) =
             Some ''<div><b>Name: undefined</b> <br/> <b>latitude: 3</b> <br/> <b>longitude: 4</b></div>''"
    using s' by (simp add: school_node_def show_num_def)
  with wf_listing q t show ?thesis by blast
qed

end
